theory Spec2Isabelle
  imports Main
begin

section \<open>Data model of main.py\<close>

text \<open>
  Python's unbounded integers are \<open>int\<close>. An instant (\<open>dt.datetime.utcnow()\<close>, and
  \<open>time.time()\<close> once \<open>utcfromtimestamp\<close> has turned it into a datetime) is an \<open>int\<close>
  number of microseconds since the epoch, the resolution of a datetime. A timestamp
  column of the database (\<open>CURRENT_TIMESTAMP\<close>, and the text written with the format
  \<open>%Y-%m-%d %H:%M:%S\<close>) is the \<open>int\<close> number of whole seconds it denotes; SQLite
  compares these texts as strings, which for this fixed-width format is the order of
  the seconds. Strings are byte lists, non-ASCII characters in UTF-8.
\<close>

datatype error =
    OperationalError    \<comment> \<open>sqlite3: a statement or a connection failed\<close>
  | IntegrityError      \<comment> \<open>sqlite3: a PRIMARY KEY or UNIQUE constraint failed\<close>
  | IndexError          \<comment> \<open>\<open>list.pop\<close> out of range\<close>
  | ValueError          \<comment> \<open>\<open>get_poll\<close>: poll not found\<close>
  | TelegramError       \<comment> \<open>the bot API rejected a call (e.g. \<open>Forbidden\<close>)\<close>

type_synonym selection = "int \<times> int \<times> int"

text \<open>An entry of \<open>PENDING_DELIVERY\<close>: the dict with these four keys.\<close>

record pending_item =
  poll_id :: int
  option_id :: int
  user_id :: int
  added_at :: int

definition item_key :: "pending_item \<Rightarrow> selection" where
  "item_key i = (poll_id i, option_id i, user_id i)"

text \<open>A row of table \<open>UploadToken\<close> (\<open>token\<close> is its primary key).\<close>

record upload_token =
  token :: string
  t_poll_id :: int
  t_option_id :: int
  t_user_id :: int
  t_username :: "string option"
  t_created_at :: int
  t_expires_at :: int
  t_used_at :: "int option"

definition token_key :: "upload_token \<Rightarrow> selection" where
  "token_key t = (t_poll_id t, t_option_id t, t_user_id t)"

text \<open>A row of table \<open>OptionExecution\<close> (primary key: poll, option, user).\<close>

record option_execution =
  e_poll_id :: int
  e_option_id :: int
  e_user_id :: int
  e_screenshot_url :: string
  e_created_at :: int

definition exec_key :: "option_execution \<Rightarrow> selection" where
  "exec_key r = (e_poll_id r, e_option_id r, e_user_id r)"

text \<open>
  The row the scanner's join over \<open>PollOptionTrade\<close>, \<open>Poll\<close> and \<open>PollOption\<close>
  returns; the three columns are \<open>NOT NULL\<close>.
\<close>

record trade_row =
  screenshot_url :: string
  question :: string
  option_text :: string

text \<open>An element of \<open>SEND_QUEUE\<close>: \<open>(user_id, path_or_url, caption, button_url)\<close>.\<close>

type_synonym send_job = "int \<times> string \<times> string \<times> string option"

text \<open>
  The process state: the three module-level containers, the two tables the upload
  flow writes, and the files saved under \<open>UPLOAD_DIR\<close> (path to content).
\<close>

record state =
  PENDING_DELIVERY :: "pending_item list"
  SEND_QUEUE :: "send_job list"
  POLL_QUEUE :: "int list"
  UploadToken :: "upload_token list"
  OptionExecution :: "option_execution list"
  saved_files :: "string \<rightharpoonup> string"

definition init_state :: state where
  "init_state = \<lparr>PENDING_DELIVERY = [], SEND_QUEUE = [], POLL_QUEUE = [],
     UploadToken = [], OptionExecution = [], saved_files = Map.empty\<rparr>"

text \<open>
  What the scanner reads from outside the modelled state: the configured base URL, the
  two \<open>SELECT\<close>s (either may raise), the successive results of
  \<open>secrets.token_urlsafe(24)\<close> during one pass, and, for the \<open>n\<close>-th \<open>INSERT\<close> of
  the pass, the time that has gone by since the pass read \<open>utcnow()\<close>: the database
  reads \<open>CURRENT_TIMESTAMP\<close> then, not at the start of the pass.
\<close>

record env =
  PUBLIC_BASE_URL :: string
  trade_query :: "int \<Rightarrow> int \<Rightarrow> error + trade_row option"
  username_query :: "int \<Rightarrow> int \<Rightarrow> int \<Rightarrow> error + string option option"
  token_urlsafe :: "nat \<Rightarrow> string"
  insert_delay :: "nat \<Rightarrow> int"

section \<open>Constants and small helpers\<close>

definition UPLOAD_DIR :: string where
  "UPLOAD_DIR = ''uploads''"

text \<open>\<open>timedelta(days=n)\<close>, in microseconds.\<close>

definition timedelta_days :: "int \<Rightarrow> int" where
  "timedelta_days n = n * 86400 * 1000000"

definition TTL :: int where
  "TTL = timedelta_days 5"

text \<open>
  The second a microsecond instant falls in: what \<open>strftime("%Y-%m-%d %H:%M:%S")\<close>
  keeps of it, and what \<open>CURRENT_TIMESTAMP\<close> reads at that instant.
\<close>

definition sql_timestamp :: "int \<Rightarrow> int" where
  "sql_timestamp t = t div 1000000"

text \<open>\<open>os.path.basename\<close> and \<open>os.path.join\<close> of two parts (posix).\<close>

definition basename :: "string \<Rightarrow> string" where
  "basename p = rev (takeWhile (\<lambda>c. c \<noteq> CHR ''/'') (rev p))"

definition path_join :: "string \<Rightarrow> string \<Rightarrow> string" where
  "path_join a b =
     (if b \<noteq> [] \<and> hd b = CHR ''/'' then b
      else if a = [] \<or> last a = CHR ''/'' then a @ b
      else a @ ''/'' @ b)"

text \<open>\<open>x or d\<close> on strings.\<close>

definition str_or :: "string \<Rightarrow> string \<Rightarrow> string" where
  "str_or x d = (if x = [] then d else x)"

text \<open>\<open>str(n)\<close> of a Python int, as an f-string formats it.\<close>

fun str_nat :: "nat \<Rightarrow> string" where
  "str_nat n = (if n < 10 then [char_of (48 + n)]
                else str_nat (n div 10) @ [char_of (48 + n mod 10)])"

definition str_int :: "int \<Rightarrow> string" where
  "str_int i = (if i < 0 then CHR ''-'' # str_nat (nat (- i)) else str_nat (nat i))"

text \<open>The three emoji of the caption, in UTF-8.\<close>

definition ballot_box :: string where
  "ballot_box = [CHR 0xF0, CHR 0x9F, CHR 0x97, CHR 0xB3, CHR 0xEF, CHR 0xB8, CHR 0x8F]"

definition right_arrow :: string where
  "right_arrow = [CHR 0xE2, CHR 0x9E, CHR 0xA1, CHR 0xEF, CHR 0xB8, CHR 0x8F]"

definition camera_flash :: string where
  "camera_flash = [CHR 0xF0, CHR 0x9F, CHR 0x93, CHR 0xB8]"

section \<open>The pending set: \<open>confirm_handler\<close>\<close>

text \<open>
  The part of \<open>confirm_handler\<close> after the callback data has been split into
  \<open>poll_id\<close>, \<open>option_id\<close> and the flag \<open>yn\<close>: under \<open>PENDING_LOCK\<close>, append the
  selection unless an entry with its key is there. \<open>now\<close> is \<open>time.time()\<close>.
  The \<open>UPDATE\<close> of \<open>PollResponse\<close> before it writes a table that is not part of
  the state; a call in which it raises, or whose callback data does not parse, does
  not reach the pending set and is no step of the model.
\<close>

definition confirm_handler :: "int \<Rightarrow> int \<Rightarrow> string \<Rightarrow> int \<Rightarrow> int \<Rightarrow> state \<Rightarrow> state" where
  "confirm_handler p_id o_id yn from_user now s =
     (let confirmed = (if yn = ''1'' then 1 else (0::int)) in
      if confirmed = 1 then
        (let key = (p_id, o_id, from_user);
             exists = list_ex (\<lambda>i. (poll_id i, option_id i, user_id i) = key) (PENDING_DELIVERY s)
         in if \<not> exists
            then s\<lparr>PENDING_DELIVERY := PENDING_DELIVERY s @
                   [\<lparr>poll_id = p_id, option_id = o_id, user_id = from_user, added_at = now\<rparr>]\<rparr>
            else s)
      else s)"

section \<open>The delivery scanner: \<open>trade_delivery_thread\<close>\<close>

text \<open>The accumulators of one pass, and the token table as committed so far.\<close>

record scan_acc =
  to_remove_idx :: "nat list"
  to_send :: "send_job list"
  tokens_db :: "upload_token list"

text \<open>\<open>INSERT INTO UploadToken\<close>: the primary key rejects a token already stored.\<close>

definition insert_upload_token :: "upload_token \<Rightarrow> upload_token list \<Rightarrow> error + upload_token list" where
  "insert_upload_token r tbl =
     (if token r \<in> set (map token tbl) then Inl IntegrityError else Inr (tbl @ [r]))"

definition make_caption :: "trade_row \<Rightarrow> string" where
  "make_caption row =
     ballot_box @ '' '' @ str_or (question row) ''Poll'' @ [CHR 0x0A] @
     right_arrow @ '' Selected: '' @ str_or (option_text row) ''Selected option'' @
     [CHR 0x0A, CHR 0x0A] @
     camera_flash @ '' Trade screenshot attached''"

definition button_url_of :: "env \<Rightarrow> string \<Rightarrow> string" where
  "button_url_of e tok = PUBLIC_BASE_URL e @ ''/ui/upload/'' @ tok"

text \<open>
  The token row the scanner inserts for \<open>item\<close> at pass time \<open>now\<close>: \<open>expires_at\<close>
  is computed from the pass's \<open>now\<close>, \<open>created_at\<close> is the \<open>CURRENT_TIMESTAMP\<close> of the
  \<open>INSERT\<close>, read at the instant \<open>inserted\<close>.
\<close>

definition minted_row :: "int \<Rightarrow> int \<Rightarrow> pending_item \<Rightarrow> string option \<Rightarrow> string \<Rightarrow> upload_token" where
  "minted_row now inserted item uname tok =
     \<lparr>token = tok, t_poll_id = poll_id item, t_option_id = option_id item,
      t_user_id = user_id item, t_username = uname,
      t_created_at = sql_timestamp inserted,
      t_expires_at = sql_timestamp (now + timedelta_days 2),
      t_used_at = None\<rparr>"

definition username_of :: "string option option \<Rightarrow> string option" where
  "username_of urow =
     (case urow of Some (Some u) \<Rightarrow> (if u \<noteq> [] then Some u else None) | _ \<Rightarrow> None)"

text \<open>
  The body of the \<open>for idx, item in enumerate(PENDING_DELIVERY)\<close> loop. An exception
  leaves the body; nothing of this item has been committed by then.
\<close>

definition scan_item :: "env \<Rightarrow> int \<Rightarrow> scan_acc \<Rightarrow> nat \<times> pending_item \<Rightarrow> error + scan_acc" where
  "scan_item e now acc x =
     (let idx = fst x; item = snd x in
      if now - added_at item > TTL then
        Inr (acc\<lparr>to_remove_idx := to_remove_idx acc @ [idx]\<rparr>)
      else
        case trade_query e (poll_id item) (option_id item) of
          Inl err \<Rightarrow> Inl err
        | Inr row \<Rightarrow>
           (case row of
              None \<Rightarrow> Inr acc
            | Some r \<Rightarrow>
               if screenshot_url r = [] then Inr acc
               else
                 (let fname = basename (screenshot_url r);
                      local_path = path_join UPLOAD_DIR fname;
                      caption = make_caption r;
                      tok = token_urlsafe e (length (to_send acc))
                  in case username_query e (poll_id item) (option_id item) (user_id item) of
                       Inl err \<Rightarrow> Inl err
                     | Inr urow \<Rightarrow>
                        (case insert_upload_token
                                (minted_row now (now + insert_delay e (length (to_send acc))) item
                                   (username_of urow) tok)
                                (tokens_db acc) of
                           Inl err \<Rightarrow> Inl err
                         | Inr tbl \<Rightarrow>
                            Inr (acc\<lparr>to_send := to_send acc @
                                        [(user_id item, local_path, caption, Some (button_url_of e tok))],
                                     to_remove_idx := to_remove_idx acc @ [idx],
                                     tokens_db := tbl\<rparr>)))))"

text \<open>The \<open>for\<close> loop: it ends at the first exception, with what was committed before.\<close>

fun scan_loop :: "env \<Rightarrow> int \<Rightarrow> (nat \<times> pending_item) list \<Rightarrow> scan_acc \<Rightarrow> error option \<times> scan_acc" where
  "scan_loop e now [] acc = (None, acc)"
| "scan_loop e now (x # xs) acc =
     (case scan_item e now acc x of
        Inl err \<Rightarrow> (Some err, acc)
      | Inr acc' \<Rightarrow> scan_loop e now xs acc')"

text \<open>
  \<open>for idx in reversed(to_remove_idx): PENDING_DELIVERY.pop(idx)\<close>, called with the
  reversed list; \<open>pop\<close> raises \<open>IndexError\<close> out of range, after the earlier pops.
\<close>

fun pop_all :: "nat list \<Rightarrow> 'a list \<Rightarrow> error option \<times> 'a list" where
  "pop_all [] xs = (None, xs)"
| "pop_all (i # is) xs =
     (if i < length xs then pop_all is (take i xs @ drop (Suc i) xs)
      else (Some IndexError, xs))"

text \<open>
  One iteration of \<open>while True\<close>, at \<open>now = utcnow()\<close>: the pass under the lock, then
  the puts on \<open>SEND_QUEUE\<close>. An exception leaves the iteration where it is raised.
\<close>

definition scan_tick :: "env \<Rightarrow> int \<Rightarrow> state \<Rightarrow> error option \<times> state" where
  "scan_tick e now s =
     (case scan_loop e now (enumerate 0 (PENDING_DELIVERY s))
             \<lparr>to_remove_idx = [], to_send = [], tokens_db = UploadToken s\<rparr> of
        (Some err, acc) \<Rightarrow> (Some err, s\<lparr>UploadToken := tokens_db acc\<rparr>)
      | (None, acc) \<Rightarrow>
         (case pop_all (rev (to_remove_idx acc)) (PENDING_DELIVERY s) of
            (Some err, p) \<Rightarrow>
              (Some err, s\<lparr>PENDING_DELIVERY := p, UploadToken := tokens_db acc\<rparr>)
          | (None, p) \<Rightarrow>
              (None, s\<lparr>PENDING_DELIVERY := p, UploadToken := tokens_db acc,
                       SEND_QUEUE := SEND_QUEUE s @ to_send acc\<rparr>)))"

text \<open>
  The thread's \<open>while True\<close> loop has no handler: an exception that leaves an
  iteration ends the thread. The list holds what each successive iteration reads
  (its environment and its \<open>utcnow()\<close>); the iterations after a raise never run.
\<close>

fun trade_delivery_thread :: "(env \<times> int) list \<Rightarrow> state \<Rightarrow> error option \<times> state" where
  "trade_delivery_thread [] s = (None, s)"
| "trade_delivery_thread (t # ts) s =
     (case scan_tick (fst t) (snd t) s of
        (Some err, s') \<Rightarrow> (Some err, s')
      | (None, s') \<Rightarrow> trade_delivery_thread ts s')"

section \<open>The outbound queues and their drainers\<close>

text \<open>
  A \<open>queue.Queue\<close> is a list: \<open>put\<close> appends at the back; \<open>get_nowait\<close> takes the
  front, or raises \<open>queue.Empty\<close> on the empty list, and never blocks.
\<close>

definition queue_put :: "'a \<Rightarrow> 'a list \<Rightarrow> 'a list" where
  "queue_put x q = q @ [x]"

text \<open>\<open>create_poll\<close>, as far as the queues go: \<open>POLL_QUEUE.put(poll_id)\<close>.\<close>

definition create_poll_enqueue :: "int \<Rightarrow> state \<Rightarrow> state" where
  "create_poll_enqueue pid s = s\<lparr>POLL_QUEUE := queue_put pid (POLL_QUEUE s)\<rparr>"

text \<open>
  The photo argument of \<open>send_photo\<close>: the file opened at a path, or the string itself.
\<close>

datatype photo = OpenedFile string | ByReference string

text \<open>
  The external sender and the file system as the drainers see them: \<open>send_photo\<close>
  with its chat id, photo, caption and the URL of the inline button (if any),
  \<open>post_poll_to_group\<close> (which raises when the poll is missing or the send is
  refused), and \<open>os.path.exists\<close>. \<open>None\<close> is a call that returned.
\<close>

record bot =
  send_photo :: "int \<Rightarrow> photo \<Rightarrow> string \<Rightarrow> string option \<Rightarrow> error option"
  post_poll_to_group :: "int \<Rightarrow> error option"
  path_exists :: "string \<Rightarrow> bool"

text \<open>The first \<open>try\<close> block's body in \<open>drain_send_queue\<close>: one dispatch.\<close>

definition dispatch_send :: "bot \<Rightarrow> send_job \<Rightarrow> error option" where
  "dispatch_send b job =
     (case job of (uid, path_or_url, caption, button_url) \<Rightarrow>
        (let reply_markup =
               (case button_url of Some u \<Rightarrow> (if u \<noteq> [] then Some u else None) | None \<Rightarrow> None)
         in if path_exists b path_or_url
            then send_photo b uid (OpenedFile path_or_url) caption reply_markup
            else send_photo b uid (ByReference path_or_url) caption reply_markup))"

text \<open>
  \<open>drain_send_queue\<close> on the backlog it finds: \<open>get_nowait\<close>, dispatch,
  \<open>task_done\<close>, again until \<open>queue.Empty\<close> (the empty list) breaks the loop. The \<open>try\<close> has a \<open>finally\<close> and no \<open>except\<close>: a dispatch that
  raises ends the call. The result is the exception that left the call (if any),
  the queue as the call leaves it, and the jobs it popped, in the order popped.
\<close>

fun drain_send_queue :: "bot \<Rightarrow> send_job list \<Rightarrow> error option \<times> send_job list \<times> send_job list" where
  "drain_send_queue b [] = (None, [], [])"
| "drain_send_queue b (job # r) =
     (case dispatch_send b job of
        Some err \<Rightarrow> (Some err, r, [job])
      | None \<Rightarrow>
         (case drain_send_queue b r of (res, q', popped) \<Rightarrow> (res, q', job # popped)))"

text \<open>\<open>drain_poll_queue\<close>, the same loop around \<open>post_poll_to_group\<close>.\<close>

fun drain_poll_queue :: "bot \<Rightarrow> int list \<Rightarrow> error option \<times> int list \<times> int list" where
  "drain_poll_queue b [] = (None, [], [])"
| "drain_poll_queue b (pid # r) =
     (case post_poll_to_group b pid of
        Some err \<Rightarrow> (Some err, r, [pid])
      | None \<Rightarrow>
         (case drain_poll_queue b r of (res, q', popped) \<Rightarrow> (res, q', pid # popped)))"

section \<open>The upload endpoint: \<open>ui_upload_submit\<close>\<close>

text \<open>The uploaded part \<open>request.files.get("file")\<close>.\<close>

record file_storage =
  filename :: string
  file_content :: string

text \<open>
  Library calls of the handler: werkzeug's \<open>secure_filename\<close>, and the text of
  \<open>utcnow().strftime("%Y%m%dT%H%M%SZ")\<close> at an instant.
\<close>

record web_env =
  secure_filename :: "string \<Rightarrow> string"
  utc_stamp :: "int \<Rightarrow> string"

text \<open>
  The handler's \<open>SELECT\<close>: the row of the token if it is unused and
  \<open>expires_at > CURRENT_TIMESTAMP\<close>; \<open>query_one\<close> takes the first row.
\<close>

definition select_valid_token :: "string \<Rightarrow> int \<Rightarrow> upload_token list \<Rightarrow> upload_token option" where
  "select_valid_token tok now tbl =
     find (\<lambda>t. token t = tok \<and> t_used_at t = None \<and> t_expires_at t > sql_timestamp now) tbl"

text \<open>
  \<open>INSERT INTO OptionExecution ... ON CONFLICT(poll_id, option_id, user_id) DO UPDATE\<close>:
  a row with the key has its two columns overwritten, otherwise a row is added.
\<close>

definition upsert_option_execution ::
    "selection \<Rightarrow> string \<Rightarrow> int \<Rightarrow> option_execution list \<Rightarrow> option_execution list" where
  "upsert_option_execution k url ts tbl =
     (if k \<in> set (map exec_key tbl)
      then map (\<lambda>r. if exec_key r = k then r\<lparr>e_screenshot_url := url, e_created_at := ts\<rparr> else r) tbl
      else tbl @ [\<lparr>e_poll_id = fst k, e_option_id = fst (snd k), e_user_id = snd (snd k),
                   e_screenshot_url = url, e_created_at = ts\<rparr>])"

text \<open>\<open>UPDATE UploadToken SET used_at=CURRENT_TIMESTAMP WHERE token=?\<close>.\<close>

definition mark_token_used :: "string \<Rightarrow> int \<Rightarrow> upload_token list \<Rightarrow> upload_token list" where
  "mark_token_used tok ts tbl = map (\<lambda>t. if token t = tok then t\<lparr>t_used_at := Some ts\<rparr> else t) tbl"

text \<open>
  The first half of the handler: the validity check and the file check. \<open>Inl\<close> is an
  early return with its status code.
\<close>

definition upload_resolve ::
    "int \<Rightarrow> string \<Rightarrow> file_storage option \<Rightarrow> state \<Rightarrow> nat + (upload_token \<times> file_storage)" where
  "upload_resolve now tok file s =
     (case select_valid_token tok now (UploadToken s) of
        None \<Rightarrow> Inl 410
      | Some row \<Rightarrow>
         (case file of
            None \<Rightarrow> Inl 400
          | Some f \<Rightarrow> if filename f = [] then Inl 400 else Inr (row, f)))"

text \<open>
  The second half: save the file, upsert the execution row, mark the token used,
  commit, answer 200. \<open>row\<close> is what the first half read. Writing the file and
  the two statements are taken to go through: the upsert cannot violate the primary
  key, and a failing disk or database is not part of the model of this handler.
\<close>

definition saved_name :: "web_env \<Rightarrow> int \<Rightarrow> upload_token \<Rightarrow> file_storage \<Rightarrow> string" where
  "saved_name w now row f =
     (let fname = secure_filename w (filename f);
          stamp = utc_stamp w now
      in ''exec_p'' @ str_int (t_poll_id row) @ ''_o'' @ str_int (t_option_id row) @
         ''_u'' @ str_int (t_user_id row) @ ''_'' @ stamp @ ''__'' @ fname)"

definition upload_store ::
    "web_env \<Rightarrow> int \<Rightarrow> string \<Rightarrow> upload_token \<Rightarrow> file_storage \<Rightarrow> state \<Rightarrow> nat \<times> state" where
  "upload_store w now tok row f s =
     (let saved = saved_name w now row f;
          save_path = path_join UPLOAD_DIR saved;
          url = ''uploads/'' @ saved
      in (200,
          s\<lparr>saved_files := (saved_files s)(save_path \<mapsto> file_content f),
            OptionExecution :=
              upsert_option_execution (t_poll_id row, t_option_id row, t_user_id row) url
                (sql_timestamp now) (OptionExecution s),
            UploadToken := mark_token_used tok (sql_timestamp now) (UploadToken s)\<rparr>))"

definition ui_upload_submit ::
    "web_env \<Rightarrow> int \<Rightarrow> string \<Rightarrow> file_storage option \<Rightarrow> state \<Rightarrow> nat \<times> state" where
  "ui_upload_submit w now tok file s =
     (case upload_resolve now tok file s of
        Inl code \<Rightarrow> (code, s)
      | Inr (row, f) \<Rightarrow> upload_store w now tok row f s)"

subsection \<open>Requests served in parallel\<close>

text \<open>
  The Flask server runs \<open>threaded=True\<close>: requests are served by threads of their
  own, each on its own connection. A request in flight is before its \<open>SELECT\<close>,
  between the checks and its write transaction, or answered. The database
  serialises statements and transactions, not handlers: a schedule names which
  request takes its next step, and when.
\<close>

datatype upload_thread =
    Received string "file_storage option"
  | Resolved string upload_token file_storage
  | Responded nat

fun upload_step :: "web_env \<Rightarrow> int \<Rightarrow> upload_thread \<Rightarrow> state \<Rightarrow> upload_thread \<times> state" where
  "upload_step w now (Received tok file) s =
     (case upload_resolve now tok file s of
        Inl code \<Rightarrow> (Responded code, s)
      | Inr (row, f) \<Rightarrow> (Resolved tok row f, s))"
| "upload_step w now (Resolved tok row f) s =
     (case upload_store w now tok row f s of (code, s') \<Rightarrow> (Responded code, s'))"
| "upload_step w now (Responded code) s = (Responded code, s)"

fun run_schedule ::
    "web_env \<Rightarrow> (nat \<times> int) list \<Rightarrow> upload_thread list \<Rightarrow> state \<Rightarrow> upload_thread list \<times> state" where
  "run_schedule w [] ths s = (ths, s)"
| "run_schedule w ((i, now) # sched) ths s =
     (if i < length ths
      then (case upload_step w now (ths ! i) s of
              (th, s') \<Rightarrow> run_schedule w sched (ths[i := th]) s')
      else run_schedule w sched ths s)"

section \<open>Reachable states\<close>

text \<open>
  The states of the process: from the empty state, any handler call, scanner
  iteration or drain tick, with whatever the outside hands it.
\<close>

inductive reachable :: "state \<Rightarrow> bool" where
  r_init: "reachable init_state"
| r_confirm: "reachable s \<Longrightarrow> reachable (confirm_handler p_id o_id yn from_user now s)"
| r_scan: "reachable s \<Longrightarrow> reachable (snd (scan_tick e now s))"
| r_create_poll: "reachable s \<Longrightarrow> reachable (create_poll_enqueue pid s)"
| r_drain_send:
    "reachable s \<Longrightarrow> reachable (s\<lparr>SEND_QUEUE := fst (snd (drain_send_queue b (SEND_QUEUE s)))\<rparr>)"
| r_drain_poll:
    "reachable s \<Longrightarrow> reachable (s\<lparr>POLL_QUEUE := fst (snd (drain_poll_queue b (POLL_QUEUE s)))\<rparr>)"
| r_upload: "reachable s \<Longrightarrow> reachable (snd (ui_upload_submit w now tok file s))"

section \<open>Vocabulary of the properties\<close>

text \<open>An item is stale at a pass when the pass's TTL test sends it to removal.\<close>

definition stale :: "int \<Rightarrow> pending_item \<Rightarrow> bool" where
  "stale now item = (now - added_at item > TTL)"

text \<open>The lookup returned a row with a screenshot for the item's option.\<close>

definition has_artifact :: "env \<Rightarrow> pending_item \<Rightarrow> bool" where
  "has_artifact e item =
     (case trade_query e (poll_id item) (option_id item) of
        Inr (Some r) \<Rightarrow> screenshot_url r \<noteq> []
      | _ \<Rightarrow> False)"

definition deliverable :: "env \<Rightarrow> int \<Rightarrow> pending_item \<Rightarrow> bool" where
  "deliverable e now item = (\<not> stale now item \<and> has_artifact e item)"

definition removable :: "env \<Rightarrow> int \<Rightarrow> pending_item \<Rightarrow> bool" where
  "removable e now item = (stale now item \<or> has_artifact e item)"

text \<open>A send job carries the link of a token row, and goes to the row's user.\<close>

definition job_linked :: "env \<Rightarrow> send_job \<Rightarrow> upload_token \<Rightarrow> bool" where
  "job_linked e job row =
     (fst job = t_user_id row \<and>
      snd (snd (snd job)) = Some (PUBLIC_BASE_URL e @ ''/ui/upload/'' @ token row))"

text \<open>A token row as a pass at \<open>now\<close> mints it for an item.\<close>

definition minted_for :: "int \<Rightarrow> upload_token \<Rightarrow> pending_item \<Rightarrow> bool" where
  "minted_for now row item =
     (token_key row = item_key item \<and>
      t_expires_at row = sql_timestamp now + 2 * 86400 \<and>
      t_used_at row = None)"

section \<open>Concrete inputs\<close>

text \<open>
  A deployment used for the worked examples: poll 1 has a trade screenshot for
  option 2 and none for the others; the lookup for option 3 fails on a broken
  database in \<open>ex_env_down\<close>. \<open>tok\<close> is what \<open>secrets.token_urlsafe\<close> draws first.
\<close>

definition ex_trade :: trade_row where
  "ex_trade = \<lparr>screenshot_url = ''uploads/poll1_opt2.png'', question = ''Buy?'',
               option_text = ''Yes''\<rparr>"

definition ex_env :: "string \<Rightarrow> env" where
  "ex_env tok =
     \<lparr>PUBLIC_BASE_URL = ''http://127.0.0.1:5000'',
      trade_query = (\<lambda>p opt. if p = 1 \<and> opt = 2 then Inr (Some ex_trade) else Inr None),
      username_query = (\<lambda>p opt u. Inr (Some (Some ''alice''))),
      token_urlsafe = (\<lambda>n. tok @ replicate n (CHR ''x'')),
      insert_delay = (\<lambda>n. 1000 * (1 + int n))\<rparr>"

definition ex_env_down :: "string \<Rightarrow> env" where
  "ex_env_down tok =
     \<lparr>PUBLIC_BASE_URL = ''http://127.0.0.1:5000'',
      trade_query = (\<lambda>p opt. if opt = 3 then Inl OperationalError
                              else if p = 1 \<and> opt = 2 then Inr (Some ex_trade) else Inr None),
      username_query = (\<lambda>p opt u. Inr (Some (Some ''alice''))),
      token_urlsafe = (\<lambda>n. tok @ replicate n (CHR ''x'')),
      insert_delay = (\<lambda>n. 1000 * (1 + int n))\<rparr>"

definition ex_item :: "int \<Rightarrow> int \<Rightarrow> int \<Rightarrow> int \<Rightarrow> pending_item" where
  "ex_item p opt u t = \<lparr>poll_id = p, option_id = opt, user_id = u, added_at = t\<rparr>"

definition ex_pending :: "pending_item list \<Rightarrow> state" where
  "ex_pending items = init_state\<lparr>PENDING_DELIVERY := items\<rparr>"

text \<open>One second, and the instant five days and one second after the epoch.\<close>

definition second :: int where
  "second = 1000000"

definition ex_late :: int where
  "ex_late = TTL + second"

text \<open>
  The same selection confirmed, scanned, confirmed again and scanned again, with no
  drain tick of the send queue in between.
\<close>

definition ex_twice :: state where
  "ex_twice =
     snd (scan_tick (ex_env ''tokB'') (16 * second)
       (confirm_handler 1 2 ''1'' 100 (2 * second)
         (snd (scan_tick (ex_env ''tokA'') second
           (confirm_handler 1 2 ''1'' 100 0 init_state)))))"

text \<open>A stored token for selection (1, 2, 100) that expires at second 172800.\<close>

definition ex_token_row :: upload_token where
  "ex_token_row =
     \<lparr>token = ''tokA'', t_poll_id = 1, t_option_id = 2, t_user_id = 100,
      t_username = Some ''alice'', t_created_at = 0, t_expires_at = 172800, t_used_at = None\<rparr>"

definition ex_token_state :: state where
  "ex_token_state = init_state\<lparr>UploadToken := [ex_token_row]\<rparr>"

definition ex_web :: web_env where
  "ex_web = \<lparr>secure_filename = (\<lambda>n. n), utc_stamp = (\<lambda>t. ''19700101T000001Z'')\<rparr>"

definition ex_file_a :: file_storage where
  "ex_file_a = \<lparr>filename = ''a.png'', file_content = ''A''\<rparr>"

definition ex_file_b :: file_storage where
  "ex_file_b = \<lparr>filename = ''b.png'', file_content = ''B''\<rparr>"

text \<open>A sender that user 100 has blocked, one that works, and two queued jobs.\<close>

definition ex_bot_blocked :: bot where
  "ex_bot_blocked =
     \<lparr>send_photo = (\<lambda>uid ph cap markup. if uid = 100 then Some TelegramError else None),
      post_poll_to_group = (\<lambda>pid. if pid = 7 then Some ValueError else None),
      path_exists = (\<lambda>p. True)\<rparr>"

definition ex_bot_ok :: bot where
  "ex_bot_ok =
     \<lparr>send_photo = (\<lambda>uid ph cap markup. None),
      post_poll_to_group = (\<lambda>pid. None),
      path_exists = (\<lambda>p. True)\<rparr>"

definition ex_job :: "int \<Rightarrow> send_job" where
  "ex_job uid = (uid, ''uploads/poll1_opt2.png'', ''caption'', Some ''http://127.0.0.1:5000/ui/upload/t'')"

text \<open>
  Two confirmed selections: the first is stale at \<open>ex_late\<close>, the lookup for the second
  fails in \<open>ex_env_down\<close>.
\<close>

definition ex_stale_first :: state where
  "ex_stale_first =
     confirm_handler 1 3 ''1'' 101 second (confirm_handler 1 2 ''1'' 100 0 init_state)"

text \<open>One confirmed selection, not yet scanned.\<close>

definition ex_confirmed :: state where
  "ex_confirmed = confirm_handler 1 2 ''1'' 100 0 init_state"

text \<open>
  After \<open>ex_twice\<close>, the user redeems the first link; the second link is still valid.
\<close>

definition ex_uploaded :: state where
  "ex_uploaded = snd (ui_upload_submit ex_web (20 * second) ''tokA'' (Some ex_file_a) ex_twice)"

definition ex_token_row_b :: upload_token where
  "ex_token_row_b =
     \<lparr>token = ''tokB'', t_poll_id = 1, t_option_id = 2, t_user_id = 100,
      t_username = Some ''alice'', t_created_at = 16, t_expires_at = 172816, t_used_at = None\<rparr>"

section \<open>The scan pass, step by step\<close>

text \<open>
  What one item does to the accumulators, what the loop does to a list of items, and
  what the index pops leave of the pending list.
\<close>

lemma sql_timestamp_two_days:
  "sql_timestamp (now + timedelta_days 2) = sql_timestamp now + 2 * 86400"
  by (simp add: sql_timestamp_def timedelta_days_def)

lemma job_linked_minted:
  "job_linked e (user_id item, lp, cap, Some (button_url_of e tok)) (minted_row now ins item u tok)"
  by (simp add: job_linked_def minted_row_def button_url_of_def)

lemma minted_for_minted_row: "minted_for now (minted_row now ins item u tok) item"
  by (simp add: minted_for_def minted_row_def token_key_def item_key_def sql_timestamp_two_days)

lemma scan_item_cases:
  assumes "scan_item e now acc x = Inr acc'"
  shows "(stale now (snd x) \<and> acc' = acc\<lparr>to_remove_idx := to_remove_idx acc @ [fst x]\<rparr>) \<or>
         (\<not> stale now (snd x) \<and> \<not> has_artifact e (snd x) \<and> acc' = acc) \<or>
         (\<not> stale now (snd x) \<and> has_artifact e (snd x) \<and>
          (\<exists>job row. job_linked e job row \<and> minted_for now row (snd x) \<and>
             acc' = acc\<lparr>to_send := to_send acc @ [job],
                        to_remove_idx := to_remove_idx acc @ [fst x],
                        tokens_db := tokens_db acc @ [row]\<rparr>))"
proof (cases "stale now (snd x)")
  case True
  with assms show ?thesis by (simp add: scan_item_def stale_def Let_def)
next
  case fresh: False
  show ?thesis
  proof (cases "has_artifact e (snd x)")
    case False
    with assms fresh show ?thesis
      by (auto simp: scan_item_def stale_def has_artifact_def Let_def
               split: sum.splits option.splits if_splits)
  next
    case True
    then obtain r where r: "trade_query e (poll_id (snd x)) (option_id (snd x)) = Inr (Some r)"
        "screenshot_url r \<noteq> []"
      by (auto simp: has_artifact_def split: sum.splits option.splits)
    from assms fresh r obtain urow where
      acc': "acc' = acc\<lparr>to_send := to_send acc @
                 [(user_id (snd x), path_join UPLOAD_DIR (basename (screenshot_url r)),
                   make_caption r, Some (button_url_of e (token_urlsafe e (length (to_send acc)))))],
               to_remove_idx := to_remove_idx acc @ [fst x],
               tokens_db := tokens_db acc @
                 [minted_row now (now + insert_delay e (length (to_send acc))) (snd x)
                    (username_of urow) (token_urlsafe e (length (to_send acc)))]\<rparr>"
      by (auto simp: scan_item_def stale_def Let_def insert_upload_token_def
               split: sum.splits if_splits)
    show ?thesis
      using fresh True acc' job_linked_minted minted_for_minted_row by blast
  qed
qed

lemma scan_item_lookup_raises:
  "\<not> stale now (snd x) \<Longrightarrow> trade_query e (poll_id (snd x)) (option_id (snd x)) = Inl err \<Longrightarrow>
   scan_item e now acc x = Inl err"
  by (simp add: scan_item_def stale_def Let_def)

lemma scan_loop_char:
  "scan_loop e now xs acc = (r, acc') \<Longrightarrow>
   \<exists>n jobs rows. n \<le> length xs \<and> (r = None \<longrightarrow> n = length xs) \<and>
      to_send acc' = to_send acc @ jobs \<and>
      tokens_db acc' = tokens_db acc @ rows \<and>
      to_remove_idx acc' =
        to_remove_idx acc @ map fst (filter (\<lambda>x. removable e now (snd x)) (take n xs)) \<and>
      list_all2 (job_linked e) jobs rows \<and>
      list_all2 (minted_for now) rows (filter (deliverable e now) (map snd (take n xs)))"
proof (induction xs arbitrary: acc)
  case Nil
  then show ?case by auto
next
  case (Cons x xs)
  show ?case
  proof (cases "scan_item e now acc x")
    case (Inl err)
    with Cons.prems have "acc' = acc" by simp
    then show ?thesis
      using Inl Cons.prems by (intro exI[of _ 0] exI[of _ "[]"]) auto
  next
    case (Inr acc1)
    with Cons.prems have "scan_loop e now xs acc1 = (r, acc')" by simp
    from Cons.IH[OF this] obtain n jobs rows where
      n: "n \<le> length xs" "r = None \<longrightarrow> n = length xs" and
      ts: "to_send acc' = to_send acc1 @ jobs" and
      tk: "tokens_db acc' = tokens_db acc1 @ rows" and
      ri: "to_remove_idx acc' =
             to_remove_idx acc1 @ map fst (filter (\<lambda>x. removable e now (snd x)) (take n xs))" and
      jl: "list_all2 (job_linked e) jobs rows" and
      mf: "list_all2 (minted_for now) rows (filter (deliverable e now) (map snd (take n xs)))"
      by blast
    from scan_item_cases[OF Inr] consider
      (stale) "stale now (snd x)"
        "acc1 = acc\<lparr>to_remove_idx := to_remove_idx acc @ [fst x]\<rparr>"
    | (wait) "\<not> stale now (snd x)" "\<not> has_artifact e (snd x)" "acc1 = acc"
    | (mint) job row where "\<not> stale now (snd x)" "has_artifact e (snd x)"
        "job_linked e job row" "minted_for now row (snd x)"
        "acc1 = acc\<lparr>to_send := to_send acc @ [job],
                     to_remove_idx := to_remove_idx acc @ [fst x],
                     tokens_db := tokens_db acc @ [row]\<rparr>"
      by blast
    then show ?thesis
    proof cases
      case stale
      then have "removable e now (snd x)" "\<not> deliverable e now (snd x)"
        by (simp_all add: removable_def deliverable_def)
      with stale show ?thesis
        using n ts tk ri jl mf
        by (intro exI[of _ "Suc n"] exI[of _ jobs] exI[of _ rows]) simp
    next
      case wait
      then have "\<not> removable e now (snd x)" "\<not> deliverable e now (snd x)"
        by (simp_all add: removable_def deliverable_def)
      with wait show ?thesis
        using n ts tk ri jl mf
        by (intro exI[of _ "Suc n"] exI[of _ jobs] exI[of _ rows]) simp
    next
      case mint
      then have "removable e now (snd x)" "deliverable e now (snd x)"
        by (simp_all add: removable_def deliverable_def)
      with mint show ?thesis
        using n ts tk ri jl mf
        by (intro exI[of _ "Suc n"] exI[of _ "job # jobs"] exI[of _ "row # rows"]) simp
    qed
  qed
qed

lemma scan_loop_append:
  "scan_loop e now (xs @ ys) acc =
     (case scan_loop e now xs acc of
        (None, acc1) \<Rightarrow> scan_loop e now ys acc1
      | (Some err, acc1) \<Rightarrow> (Some err, acc1))"
  by (induction xs arbitrary: acc) (auto split: sum.splits)

lemma pop_all_append:
  "sorted_wrt (>) js \<Longrightarrow> \<forall>j \<in> set js. j < length xs \<Longrightarrow>
   pop_all js (xs @ ys) = (case pop_all js xs of (r, zs) \<Rightarrow> (r, zs @ ys))"
proof (induction js arbitrary: xs)
  case Nil
  then show ?case by simp
next
  case (Cons j js)
  have len: "\<forall>i \<in> set js. i < length (take j xs @ drop (Suc j) xs)"
    using Cons.prems by auto
  have "take j (xs @ ys) @ drop (Suc j) (xs @ ys) = (take j xs @ drop (Suc j) xs) @ ys"
    using Cons.prems by simp
  then show ?case
    using Cons.IH[OF _ len] Cons.prems by simp
qed

lemma pop_all_filter:
  "pop_all (rev (map fst (filter (\<lambda>x. P (snd x)) (enumerate 0 xs)))) xs =
     (None, filter (\<lambda>x. \<not> P x) xs)"
proof (induction xs rule: rev_induct)
  case Nil
  then show ?case by simp
next
  case (snoc x xs)
  let ?js = "rev (map fst (filter (\<lambda>x. P (snd x)) (enumerate 0 xs)))"
  have "sorted_wrt (<) (map fst (enumerate 0 xs))"
    by (simp add: map_fst_enumerate)
  then have "sorted_wrt (\<lambda>a b. fst a < fst b) (enumerate 0 xs)"
    by (simp only: sorted_wrt_map)
  then have "sorted_wrt (\<lambda>a b. fst a < fst b) (filter (\<lambda>x. P (snd x)) (enumerate 0 xs))"
    by (rule sorted_wrt_filter)
  then have srt: "sorted_wrt (>) ?js"
    by (simp add: sorted_wrt_rev sorted_wrt_map)
  have rng: "\<forall>j \<in> set ?js. j < length xs"
    by (auto simp: in_set_enumerate_eq)
  have en: "enumerate 0 (xs @ [x]) = enumerate 0 xs @ [(length xs, x)]"
    by (simp add: enumerate_append_eq)
  show ?case
  proof (cases "P x")
    case True
    then show ?thesis using snoc.IH by (simp add: en)
  next
    case False
    then show ?thesis
      using snoc.IH pop_all_append[OF srt rng, of "[x]"] by (simp add: en)
  qed
qed

text \<open>
  One iteration as a whole. \<open>n\<close> is the number of items the pass got through: all of
  them when no exception left it. The pops never raise: the indices are those of the
  list they are applied to, taken in decreasing order.
\<close>

lemma scan_tick_char:
  assumes "scan_tick e now s = (r, s')"
  shows "\<exists>n jobs rows. n \<le> length (PENDING_DELIVERY s) \<and>
      (r = None \<longrightarrow> n = length (PENDING_DELIVERY s)) \<and>
      UploadToken s' = UploadToken s @ rows \<and>
      list_all2 (job_linked e) jobs rows \<and>
      list_all2 (minted_for now) rows (filter (deliverable e now) (take n (PENDING_DELIVERY s))) \<and>
      (r = None \<longrightarrow>
         PENDING_DELIVERY s' = filter (\<lambda>i. \<not> removable e now i) (PENDING_DELIVERY s) \<and>
         SEND_QUEUE s' = SEND_QUEUE s @ jobs) \<and>
      (r \<noteq> None \<longrightarrow>
         PENDING_DELIVERY s' = PENDING_DELIVERY s \<and> SEND_QUEUE s' = SEND_QUEUE s) \<and>
      POLL_QUEUE s' = POLL_QUEUE s \<and> OptionExecution s' = OptionExecution s \<and>
      saved_files s' = saved_files s"
proof -
  let ?acc0 = "\<lparr>to_remove_idx = [], to_send = [], tokens_db = UploadToken s\<rparr>"
  obtain r0 acc where loop: "scan_loop e now (enumerate 0 (PENDING_DELIVERY s)) ?acc0 = (r0, acc)"
    by (cases "scan_loop e now (enumerate 0 (PENDING_DELIVERY s)) ?acc0")
  from scan_loop_char[OF loop] obtain n jobs rows where
    n: "n \<le> length (PENDING_DELIVERY s)" "r0 = None \<longrightarrow> n = length (PENDING_DELIVERY s)" and
    ts: "to_send acc = jobs" and
    tk: "tokens_db acc = UploadToken s @ rows" and
    ri: "to_remove_idx acc =
           map fst (filter (\<lambda>x. removable e now (snd x)) (take n (enumerate 0 (PENDING_DELIVERY s))))" and
    jl: "list_all2 (job_linked e) jobs rows" and
    mf: "list_all2 (minted_for now) rows
           (filter (deliverable e now) (map snd (take n (enumerate 0 (PENDING_DELIVERY s)))))"
    by auto
  have tk_n: "map snd (take n (enumerate 0 (PENDING_DELIVERY s))) = take n (PENDING_DELIVERY s)"
    by (simp add: take_map [symmetric])
  show ?thesis
  proof (cases r0)
    case (Some err)
    with loop assms have "r = Some err" "s' = s\<lparr>UploadToken := tokens_db acc\<rparr>"
      by (simp_all add: scan_tick_def)
    then show ?thesis
      using n tk jl mf tk_n by (intro exI[of _ n] exI[of _ jobs] exI[of _ rows]) simp
  next
    case None
    with n have nl: "n = length (PENDING_DELIVERY s)" by simp
    have pop: "pop_all (rev (to_remove_idx acc)) (PENDING_DELIVERY s) =
                 (None, filter (\<lambda>i. \<not> removable e now i) (PENDING_DELIVERY s))"
      using pop_all_filter[of "removable e now" "PENDING_DELIVERY s"] ri nl by simp
    with None loop assms have "r = None"
      "s' = s\<lparr>PENDING_DELIVERY := filter (\<lambda>i. \<not> removable e now i) (PENDING_DELIVERY s),
              UploadToken := tokens_db acc, SEND_QUEUE := SEND_QUEUE s @ to_send acc\<rparr>"
      by (simp_all add: scan_tick_def)
    then show ?thesis
      using n nl tk ts jl mf tk_n by (intro exI[of _ n] exI[of _ jobs] exI[of _ rows]) simp
  qed
qed

lemma scan_tick_prefix_ok:
  assumes "fst (scan_tick e now (s\<lparr>PENDING_DELIVERY := pre\<rparr>)) = None"
  shows "\<exists>acc. scan_loop e now (enumerate 0 pre)
            \<lparr>to_remove_idx = [], to_send = [], tokens_db = UploadToken s\<rparr> = (None, acc) \<and>
          UploadToken (snd (scan_tick e now (s\<lparr>PENDING_DELIVERY := pre\<rparr>))) = tokens_db acc"
  using assms
  by (auto simp: scan_tick_def split: prod.splits option.splits)

lemma minted_keys:
  "list_all2 (minted_for now) rows items \<Longrightarrow> map token_key rows = map item_key items"
  by (induction rule: list_all2_induct) (simp_all add: minted_for_def)

lemma list_all2_ex_right:
  "list_all2 P xs ys \<Longrightarrow> \<forall>x \<in> set xs. \<exists>y \<in> set ys. P x y"
  by (induction rule: list_all2_induct) auto

lemma distinct_key_eq:
  "distinct (map item_key xs) \<Longrightarrow> a \<in> set xs \<Longrightarrow> b \<in> set xs \<Longrightarrow>
   item_key a = item_key b \<Longrightarrow> a = b"
  by (meson distinct_map inj_onD)

section \<open>Invariants of the reachable states\<close>

lemma confirm_handler_distinct:
  assumes "distinct (map item_key (PENDING_DELIVERY s))"
  shows "distinct (map item_key (PENDING_DELIVERY (confirm_handler p_id o_id yn from_user now s)))"
  using assms
  by (auto simp: confirm_handler_def Let_def list_ex_iff item_key_def)

lemma scan_tick_distinct:
  assumes "distinct (map item_key (PENDING_DELIVERY s))"
  shows "distinct (map item_key (PENDING_DELIVERY (snd (scan_tick e now s))))"
proof -
  obtain r s' where st: "scan_tick e now s = (r, s')" by (cases "scan_tick e now s")
  from scan_tick_char[OF st] show ?thesis
    using assms st by (cases r) (auto simp: distinct_map_filter)
qed

lemma reachable_pending_distinct:
  "reachable s \<Longrightarrow> distinct (map item_key (PENDING_DELIVERY s))"
proof (induction rule: reachable.induct)
  case r_init
  then show ?case by (simp add: init_state_def)
next
  case (r_confirm s p_id o_id yn from_user now)
  then show ?case by (simp add: confirm_handler_distinct)
next
  case (r_scan s e now)
  then show ?case by (simp add: scan_tick_distinct)
next
  case (r_upload s w now tok fl)
  then show ?case
    by (auto simp: ui_upload_submit_def upload_store_def Let_def split: sum.splits)
qed (simp_all add: create_poll_enqueue_def)

lemma upsert_keys:
  "map exec_key (upsert_option_execution k url ts tbl) =
     (if k \<in> set (map exec_key tbl) then map exec_key tbl else map exec_key tbl @ [k])"
  by (auto simp: upsert_option_execution_def exec_key_def)

lemma upsert_distinct:
  "distinct (map exec_key tbl) \<Longrightarrow> distinct (map exec_key (upsert_option_execution k url ts tbl))"
  by (simp add: upsert_keys)

lemma upload_store_exec_distinct:
  "distinct (map exec_key (OptionExecution s)) \<Longrightarrow>
   distinct (map exec_key (OptionExecution (snd (upload_store w now tok row f s))))"
  by (simp add: upload_store_def Let_def upsert_distinct)

lemma reachable_exec_distinct:
  "reachable s \<Longrightarrow> distinct (map exec_key (OptionExecution s))"
proof (induction rule: reachable.induct)
  case r_init
  then show ?case by (simp add: init_state_def)
next
  case (r_confirm s p_id o_id yn from_user now)
  then show ?case by (simp add: confirm_handler_def Let_def)
next
  case (r_scan s e now)
  obtain r s' where st: "scan_tick e now s = (r, s')" by (cases "scan_tick e now s")
  from scan_tick_char[OF st] r_scan.IH st show ?case by auto
next
  case (r_upload s w now tok fl)
  then show ?case
    by (auto simp: ui_upload_submit_def upload_store_exec_distinct split: sum.splits)
qed (simp_all add: create_poll_enqueue_def)

section \<open>The upload endpoint\<close>

lemma select_after_mark:
  "select_valid_token tok now' (mark_token_used tok ts tbl) = None"
  by (induction tbl) (simp_all add: select_valid_token_def mark_token_used_def)

lemma select_valid_token_none:
  "\<forall>t \<in> set tbl. token t = tok \<longrightarrow> t_used_at t \<noteq> None \<or> t_expires_at t * 1000000 \<le> now \<Longrightarrow>
   select_valid_token tok now tbl = None"
  by (induction tbl) (auto simp: select_valid_token_def sql_timestamp_def)

lemma invalid_token_410:
  "\<forall>t \<in> set (UploadToken s). token t = tok \<longrightarrow> t_used_at t \<noteq> None \<or> t_expires_at t * 1000000 \<le> now \<Longrightarrow>
   ui_upload_submit w now tok fl s = (410, s)"
  by (simp add: ui_upload_submit_def upload_resolve_def select_valid_token_none)

lemma upsert_row_values:
  assumes "r \<in> set (upsert_option_execution k url ts tbl)" and "exec_key r = k"
  shows "e_screenshot_url r = url \<and> e_created_at r = ts"
proof (cases "k \<in> set (map exec_key tbl)")
  case True
  with assms(1) obtain r0 where "r0 \<in> set tbl"
    and r: "r = (if exec_key r0 = k then r0\<lparr>e_screenshot_url := url, e_created_at := ts\<rparr> else r0)"
    by (auto simp: upsert_option_execution_def)
  show ?thesis
  proof (cases "exec_key r0 = k")
    case True
    with r show ?thesis by simp
  next
    case False
    with r assms(2) show ?thesis by simp
  qed
next
  case False
  with assms(1) have "r \<in> set tbl \<or>
      r = \<lparr>e_poll_id = fst k, e_option_id = fst (snd k), e_user_id = snd (snd k),
           e_screenshot_url = url, e_created_at = ts\<rparr>"
    by (auto simp: upsert_option_execution_def)
  then show ?thesis
  proof
    assume "r \<in> set tbl"
    with assms(2) have "k \<in> set (map exec_key tbl)" by auto
    with False show ?thesis by simp
  next
    assume "r = \<lparr>e_poll_id = fst k, e_option_id = fst (snd k), e_user_id = snd (snd k),
           e_screenshot_url = url, e_created_at = ts\<rparr>"
    then have "e_screenshot_url r = url" "e_created_at r = ts" by simp_all
    then show ?thesis by simp
  qed
qed

lemma exec_key_overwrite:
  "exec_key (r\<lparr>e_screenshot_url := url, e_created_at := ts\<rparr>) = exec_key r"
  by (simp add: exec_key_def)

lemma exec_key_new_row:
  "exec_key \<lparr>e_poll_id = fst k, e_option_id = fst (snd k), e_user_id = snd (snd k),
             e_screenshot_url = url, e_created_at = ts\<rparr> = k"
  by (simp add: exec_key_def)

lemma overwrite_others_kept:
  "filter (\<lambda>r. exec_key r \<noteq> k)
     (map (\<lambda>r. if exec_key r = k then r\<lparr>e_screenshot_url := url, e_created_at := ts\<rparr> else r) tbl) =
   filter (\<lambda>r. exec_key r \<noteq> k) tbl"
  by (induction tbl) (simp_all add: exec_key_overwrite)

lemma upsert_others_kept:
  "filter (\<lambda>r. exec_key r \<noteq> k) (upsert_option_execution k url ts tbl) =
   filter (\<lambda>r. exec_key r \<noteq> k) tbl"
  unfolding upsert_option_execution_def
  by (simp add: overwrite_others_kept exec_key_new_row del: map_map set_map)

lemma upload_store_exec:
  "OptionExecution (snd (upload_store w now tok row f s)) =
     upsert_option_execution (token_key row) (''uploads/'' @ saved_name w now row f)
       (sql_timestamp now) (OptionExecution s)"
  by (simp add: upload_store_def Let_def token_key_def)

lemma upload_store_code: "fst (upload_store w now tok row f s) = 200"
  by (simp add: upload_store_def Let_def)

text \<open>
  Served alone, a request is its two steps in a row, and a token that has been
  redeemed is refused from then on.
\<close>

lemma ui_upload_submit_as_steps:
  "ui_upload_submit w now tok fl s =
     (case upload_step w now (Received tok fl) s of
        (Responded code, s') \<Rightarrow> (code, s')
      | (th, s') \<Rightarrow> (case upload_step w now th s' of
                       (Responded code, s'') \<Rightarrow> (code, s'')
                     | (_, s'') \<Rightarrow> (0, s'')))"
  by (auto simp: ui_upload_submit_def split: sum.splits prod.splits upload_thread.splits)

lemma redeemed_token_rejected:
  assumes "ui_upload_submit w now tok fl s = (200, s')"
  shows "ui_upload_submit w now' tok fl' s' = (410, s')"
proof -
  from assms have "UploadToken s' = mark_token_used tok (sql_timestamp now) (UploadToken s)"
    by (auto simp: ui_upload_submit_def upload_resolve_def upload_store_def Let_def
             split: option.splits if_splits)
  then show ?thesis
    by (simp add: ui_upload_submit_def upload_resolve_def select_after_mark)
qed

section \<open>The drainers\<close>

lemma drain_send_queue_all_ok:
  "\<forall>j \<in> set q. dispatch_send b j = None \<Longrightarrow> drain_send_queue b q = (None, [], q)"
  by (induction q) simp_all

lemma drain_poll_queue_all_ok:
  "\<forall>p \<in> set q. post_poll_to_group b p = None \<Longrightarrow> drain_poll_queue b q = (None, [], q)"
  by (induction q) simp_all

lemma drain_send_queue_fifo:
  "drain_send_queue b q = (r, rest, popped) \<Longrightarrow> popped @ rest = q \<and> (r = None \<longrightarrow> rest = [])"
  by (induction q arbitrary: r rest popped) (auto split: option.splits prod.splits)

lemma drain_poll_queue_fifo:
  "drain_poll_queue b q = (r, rest, popped) \<Longrightarrow> popped @ rest = q \<and> (r = None \<longrightarrow> rest = [])"
  by (induction q arbitrary: r rest popped) (auto split: option.splits prod.splits)

lemma drain_send_queue_closed_form:
  "drain_send_queue b q =
     (case dropWhile (\<lambda>j. dispatch_send b j = None) q of
        [] \<Rightarrow> (None, [], q)
      | j # rest \<Rightarrow> (dispatch_send b j, rest, takeWhile (\<lambda>j. dispatch_send b j = None) q @ [j]))"
proof (induction q)
  case Nil
  then show ?case by simp
next
  case (Cons a q)
  show ?case
  proof (cases "dispatch_send b a")
    case None
    then show ?thesis
      using Cons.IH by (cases "dropWhile (\<lambda>j. dispatch_send b j = None) q")
          (simp_all del: dropWhile_eq_Nil_conv)
  next
    case (Some err)
    then show ?thesis by simp
  qed
qed

lemma drain_poll_queue_closed_form:
  "drain_poll_queue b q =
     (case dropWhile (\<lambda>p. post_poll_to_group b p = None) q of
        [] \<Rightarrow> (None, [], q)
      | p # rest \<Rightarrow> (post_poll_to_group b p, rest,
                     takeWhile (\<lambda>p. post_poll_to_group b p = None) q @ [p]))"
proof (induction q)
  case Nil
  then show ?case by simp
next
  case (Cons a q)
  show ?case
  proof (cases "post_poll_to_group b a")
    case None
    then show ?thesis
      using Cons.IH by (cases "dropWhile (\<lambda>p. post_poll_to_group b p = None) q")
          (simp_all del: dropWhile_eq_Nil_conv)
  next
    case (Some err)
    then show ?thesis by simp
  qed
qed

section \<open>The claims\<close>

subsection \<open>C1: a token is redeemed at most once\<close>

text \<open>
  Claim C1: at most one redemption of a token ever succeeds, also when two uploads
  are submitted at once. The handler reads the token's validity with a \<open>SELECT\<close>
  and marks it used later, with \<open>UPDATE ... WHERE token=?\<close>, which does not test
  \<open>used_at\<close> again. When two requests for the same token both run their \<open>SELECT\<close>
  before either marks the token, both are answered 200, the second upload replaces
  the screenshot of the first, and the token is marked used twice: the code misses
  the claim.
\<close>

theorem concurrent_redemptions_both_succeed:
  "fst (run_schedule ex_web [(0, second), (1, second), (0, 2 * second), (1, 3 * second)]
         [Received ''tokA'' (Some ex_file_a), Received ''tokA'' (Some ex_file_b)] ex_token_state)
     = [Responded 200, Responded 200] \<and>
   map e_screenshot_url (OptionExecution (snd (run_schedule ex_web
         [(0, second), (1, second), (0, 2 * second), (1, 3 * second)]
         [Received ''tokA'' (Some ex_file_a), Received ''tokA'' (Some ex_file_b)] ex_token_state)))
     = [''uploads/exec_p1_o2_u100_19700101T000001Z__b.png''] \<and>
   map t_used_at (UploadToken (snd (run_schedule ex_web
         [(0, second), (1, second), (0, 2 * second), (1, 3 * second)]
         [Received ''tokA'' (Some ex_file_a), Received ''tokA'' (Some ex_file_b)] ex_token_state)))
     = [Some 3] \<and>
   select_valid_token ''tokA'' second (UploadToken ex_token_state) = Some ex_token_row"
  by code_simp

subsection \<open>C2: the pending set and the jobs it gives rise to\<close>

text \<open>
  Claim C2, as amended: in every reachable state the pending set has at most one
  entry for a selection key; confirming a key that is pending changes nothing; a scan
  pass appends its send jobs to the queue only together with the removal of their
  entries (the keys of the tokens its jobs link to are no longer pending), and one
  pass mints, and so enqueues, at most one job for a key.
\<close>

theorem pending_set_invariant:
  assumes "reachable s"
  shows "distinct (map item_key (PENDING_DELIVERY s)) \<and>
         confirm_handler p_id o_id ''1'' u t2 (confirm_handler p_id o_id ''1'' u t1 s) =
           confirm_handler p_id o_id ''1'' u t1 s \<and>
         (\<exists>jobs rows.
            SEND_QUEUE (snd (scan_tick e now s)) = SEND_QUEUE s @ jobs \<and>
            UploadToken (snd (scan_tick e now s)) = UploadToken s @ rows \<and>
            distinct (map token_key rows) \<and>
            (jobs = [] \<or>
             list_all2 (job_linked e) jobs rows \<and>
             set (map token_key rows) \<inter>
               set (map item_key (PENDING_DELIVERY (snd (scan_tick e now s)))) = {}))"
proof -
  have d: "distinct (map item_key (PENDING_DELIVERY s))"
    using assms by (rule reachable_pending_distinct)
  have idem: "confirm_handler p_id o_id ''1'' u t2 (confirm_handler p_id o_id ''1'' u t1 s) =
           confirm_handler p_id o_id ''1'' u t1 s"
    by (auto simp: confirm_handler_def Let_def list_ex_iff)
  obtain r s' where st: "scan_tick e now s = (r, s')" by (cases "scan_tick e now s")
  from scan_tick_char[OF st] obtain n jobs rows where
    tk: "UploadToken s' = UploadToken s @ rows" and
    jl: "list_all2 (job_linked e) jobs rows" and
    mf: "list_all2 (minted_for now) rows (filter (deliverable e now) (take n (PENDING_DELIVERY s)))" and
    ok: "r = None \<longrightarrow>
         PENDING_DELIVERY s' = filter (\<lambda>i. \<not> removable e now i) (PENDING_DELIVERY s) \<and>
         SEND_QUEUE s' = SEND_QUEUE s @ jobs" and
    bad: "r \<noteq> None \<longrightarrow> PENDING_DELIVERY s' = PENDING_DELIVERY s \<and> SEND_QUEUE s' = SEND_QUEUE s"
    by blast
  have keys: "map token_key rows = map item_key (filter (deliverable e now) (take n (PENDING_DELIVERY s)))"
    using mf by (rule minted_keys)
  have "distinct (map item_key (take n (PENDING_DELIVERY s)))"
    using d by (simp add: take_map [symmetric])
  then have dk: "distinct (map token_key rows)"
    by (simp add: keys distinct_map_filter)
  have sub: "set (map token_key rows) \<subseteq> item_key ` {i \<in> set (PENDING_DELIVERY s). removable e now i}"
    unfolding keys by (auto simp: deliverable_def removable_def dest: in_set_takeD)
  show ?thesis
  proof (cases r)
    case None
    have disj: "set (map token_key rows) \<inter> set (map item_key (PENDING_DELIVERY s')) = {}"
    proof (rule ccontr)
      assume "\<not> ?thesis"
      then obtain k where k1: "k \<in> set (map token_key rows)"
        and k2: "k \<in> set (map item_key (PENDING_DELIVERY s'))"
        by blast
      from k1 sub obtain a where a: "a \<in> set (PENDING_DELIVERY s)" "removable e now a"
        and ka: "k = item_key a"
        by blast
      from k2 ok None obtain b where b: "b \<in> set (PENDING_DELIVERY s)" "\<not> removable e now b"
        and kb: "k = item_key b"
        by auto
      from ka kb have eq: "item_key a = item_key b" by simp
      from distinct_key_eq[OF d a(1) b(1) eq] a(2) b(2) show False by simp
    qed
    show ?thesis
      using d idem st tk jl dk disj ok None
      by (intro conjI exI[of _ jobs] exI[of _ rows]) simp_all
  next
    case (Some err)
    show ?thesis
      using d idem st tk dk bad Some
      by (intro conjI exI[of _ "[]"] exI[of _ rows]) simp_all
  qed
qed

theorem pending_set_invariant_witness:
  "reachable ex_confirmed \<and>
   (distinct (map item_key (PENDING_DELIVERY ex_confirmed)) \<and>
    confirm_handler 1 2 ''1'' 100 second (confirm_handler 1 2 ''1'' 100 0 ex_confirmed) =
      confirm_handler 1 2 ''1'' 100 0 ex_confirmed \<and>
    (\<exists>jobs rows.
       SEND_QUEUE (snd (scan_tick (ex_env ''tokA'') second ex_confirmed)) =
         SEND_QUEUE ex_confirmed @ jobs \<and>
       UploadToken (snd (scan_tick (ex_env ''tokA'') second ex_confirmed)) =
         UploadToken ex_confirmed @ rows \<and>
       distinct (map token_key rows) \<and>
       (jobs = [] \<or>
        list_all2 (job_linked (ex_env ''tokA'')) jobs rows \<and>
        set (map token_key rows) \<inter>
          set (map item_key
                (PENDING_DELIVERY (snd (scan_tick (ex_env ''tokA'') second ex_confirmed)))) = {})))"
proof -
  have h: "reachable ex_confirmed"
    unfolding ex_confirmed_def by (intro reachable.intros)
  show ?thesis
    by (rule conjI[OF h pending_set_invariant[OF h]])
qed

text \<open>
  The claim as stated also says that at most one job for a key is outstanding at a
  time. The check for a duplicate looks at the pending set only: a key confirmed
  again after its entry was removed is scanned again, and a second job for it joins
  the first one on the queue.
\<close>

theorem repeated_confirmation_two_jobs:
  "reachable ex_twice \<and>
   PENDING_DELIVERY ex_twice = [] \<and>
   map fst (SEND_QUEUE ex_twice) = [100, 100] \<and>
   map (snd \<circ> snd \<circ> snd) (SEND_QUEUE ex_twice) =
     [Some ''http://127.0.0.1:5000/ui/upload/tokA'', Some ''http://127.0.0.1:5000/ui/upload/tokB''] \<and>
   map token (UploadToken ex_twice) = [''tokA'', ''tokB''] \<and>
   map token_key (UploadToken ex_twice) = [(1, 2, 100), (1, 2, 100)]"
proof -
  have r: "reachable ex_twice"
    unfolding ex_twice_def by (intro reachable.intros)
  have "PENDING_DELIVERY ex_twice = []" by code_simp
  moreover have "map fst (SEND_QUEUE ex_twice) = [100, 100]" by code_simp
  moreover have "map (snd \<circ> snd \<circ> snd) (SEND_QUEUE ex_twice) =
     [Some ''http://127.0.0.1:5000/ui/upload/tokA'', Some ''http://127.0.0.1:5000/ui/upload/tokB'']"
    by code_simp
  moreover have "map token (UploadToken ex_twice) = [''tokA'', ''tokB'']" by code_simp
  moreover have "map token_key (UploadToken ex_twice) = [(1, 2, 100), (1, 2, 100)]" by code_simp
  ultimately show ?thesis using r by simp
qed

subsection \<open>C3: an exception of the artifact lookup\<close>

text \<open>
  Claim C3, as amended: the pass has no handler around the lookup. When the lookup
  for an item raises (the items before it went through, and the item is not stale),
  the exception leaves the pass there: no item after it is looked at, so the token
  table holds what the pass over the items before it has minted and nothing more;
  nothing is removed from the pending set, nothing is put on the send queue, so the
  state is the old one but for these tokens; and the thread's loop ends with that
  exception, whatever ticks would have followed.
\<close>

theorem lookup_exception_ends_scanner:
  assumes "PENDING_DELIVERY s = pre @ item # post"
    and "fst (scan_tick e now (s\<lparr>PENDING_DELIVERY := pre\<rparr>)) = None"
    and "now - added_at item \<le> TTL"
    and "trade_query e (poll_id item) (option_id item) = Inl err"
  shows "fst (scan_tick e now s) = Some err \<and>
         PENDING_DELIVERY (snd (scan_tick e now s)) = PENDING_DELIVERY s \<and>
         SEND_QUEUE (snd (scan_tick e now s)) = SEND_QUEUE s \<and>
         UploadToken (snd (scan_tick e now s)) =
           UploadToken (snd (scan_tick e now (s\<lparr>PENDING_DELIVERY := pre\<rparr>))) \<and>
         snd (scan_tick e now s) =
           s\<lparr>UploadToken := UploadToken (snd (scan_tick e now (s\<lparr>PENDING_DELIVERY := pre\<rparr>)))\<rparr> \<and>
         trade_delivery_thread ((e, now) # ticks) s = scan_tick e now s"
proof -
  let ?acc0 = "\<lparr>to_remove_idx = [], to_send = [], tokens_db = UploadToken s\<rparr>"
  from scan_tick_prefix_ok[OF assms(2)] obtain acc where
    pre: "scan_loop e now (enumerate 0 pre) ?acc0 = (None, acc)" and
    tok: "UploadToken (snd (scan_tick e now (s\<lparr>PENDING_DELIVERY := pre\<rparr>))) = tokens_db acc"
    by blast
  have item: "scan_item e now acc (length pre, item) = Inl err"
    using assms(3,4) by (simp add: scan_item_lookup_raises stale_def)
  have "enumerate 0 (PENDING_DELIVERY s) =
          enumerate 0 pre @ (length pre, item) # enumerate (Suc (length pre)) post"
    by (simp add: assms(1) enumerate_append_eq)
  then have "scan_loop e now (enumerate 0 (PENDING_DELIVERY s)) ?acc0 = (Some err, acc)"
    using pre item by (simp add: scan_loop_append)
  then have tick: "scan_tick e now s = (Some err, s\<lparr>UploadToken := tokens_db acc\<rparr>)"
    by (simp add: scan_tick_def)
  then show ?thesis by (simp add: tok)
qed

theorem lookup_exception_ends_scanner_witness:
  "PENDING_DELIVERY (ex_pending [ex_item 1 2 101 0, ex_item 1 3 100 0, ex_item 1 2 102 0]) =
     [ex_item 1 2 101 0] @ ex_item 1 3 100 0 # [ex_item 1 2 102 0] \<and>
   fst (scan_tick (ex_env_down ''tokA'') second
         ((ex_pending [ex_item 1 2 101 0, ex_item 1 3 100 0, ex_item 1 2 102 0])
            \<lparr>PENDING_DELIVERY := [ex_item 1 2 101 0]\<rparr>)) = None \<and>
   second - added_at (ex_item 1 3 100 0) \<le> TTL \<and>
   trade_query (ex_env_down ''tokA'') (poll_id (ex_item 1 3 100 0)) (option_id (ex_item 1 3 100 0)) =
     Inl OperationalError \<and>
   fst (scan_tick (ex_env_down ''tokA'') second
         (ex_pending [ex_item 1 2 101 0, ex_item 1 3 100 0, ex_item 1 2 102 0])) =
     Some OperationalError \<and>
   PENDING_DELIVERY (snd (scan_tick (ex_env_down ''tokA'') second
         (ex_pending [ex_item 1 2 101 0, ex_item 1 3 100 0, ex_item 1 2 102 0]))) =
     PENDING_DELIVERY (ex_pending [ex_item 1 2 101 0, ex_item 1 3 100 0, ex_item 1 2 102 0]) \<and>
   SEND_QUEUE (snd (scan_tick (ex_env_down ''tokA'') second
         (ex_pending [ex_item 1 2 101 0, ex_item 1 3 100 0, ex_item 1 2 102 0]))) =
     SEND_QUEUE (ex_pending [ex_item 1 2 101 0, ex_item 1 3 100 0, ex_item 1 2 102 0]) \<and>
   UploadToken (snd (scan_tick (ex_env_down ''tokA'') second
         (ex_pending [ex_item 1 2 101 0, ex_item 1 3 100 0, ex_item 1 2 102 0]))) =
     UploadToken (snd (scan_tick (ex_env_down ''tokA'') second
         ((ex_pending [ex_item 1 2 101 0, ex_item 1 3 100 0, ex_item 1 2 102 0])
            \<lparr>PENDING_DELIVERY := [ex_item 1 2 101 0]\<rparr>))) \<and>
   snd (scan_tick (ex_env_down ''tokA'') second
         (ex_pending [ex_item 1 2 101 0, ex_item 1 3 100 0, ex_item 1 2 102 0])) =
     (ex_pending [ex_item 1 2 101 0, ex_item 1 3 100 0, ex_item 1 2 102 0])
       \<lparr>UploadToken := UploadToken (snd (scan_tick (ex_env_down ''tokA'') second
         ((ex_pending [ex_item 1 2 101 0, ex_item 1 3 100 0, ex_item 1 2 102 0])
            \<lparr>PENDING_DELIVERY := [ex_item 1 2 101 0]\<rparr>)))\<rparr> \<and>
   map token_key (UploadToken (snd (scan_tick (ex_env_down ''tokA'') second
         (ex_pending [ex_item 1 2 101 0, ex_item 1 3 100 0, ex_item 1 2 102 0])))) = [(1, 2, 101)] \<and>
   has_artifact (ex_env_down ''tokA'') (ex_item 1 2 102 0) \<and>
   trade_delivery_thread [(ex_env_down ''tokA'', second), (ex_env ''tokB'', 16 * second)]
       (ex_pending [ex_item 1 2 101 0, ex_item 1 3 100 0, ex_item 1 2 102 0]) =
     scan_tick (ex_env_down ''tokA'') second
       (ex_pending [ex_item 1 2 101 0, ex_item 1 3 100 0, ex_item 1 2 102 0])"
proof -
  let ?s = "ex_pending [ex_item 1 2 101 0, ex_item 1 3 100 0, ex_item 1 2 102 0]"
  have h1: "PENDING_DELIVERY ?s = [ex_item 1 2 101 0] @ ex_item 1 3 100 0 # [ex_item 1 2 102 0]"
    by (simp add: ex_pending_def)
  have h2: "fst (scan_tick (ex_env_down ''tokA'') second (?s\<lparr>PENDING_DELIVERY := [ex_item 1 2 101 0]\<rparr>)) = None"
    by code_simp
  have h3: "second - added_at (ex_item 1 3 100 0) \<le> TTL"
    by (simp add: second_def ex_item_def TTL_def timedelta_days_def)
  have h4: "trade_query (ex_env_down ''tokA'') (poll_id (ex_item 1 3 100 0)) (option_id (ex_item 1 3 100 0)) =
     Inl OperationalError"
    by (simp add: ex_env_down_def ex_item_def)
  have m: "map token_key (UploadToken (snd (scan_tick (ex_env_down ''tokA'') second ?s))) = [(1, 2, 101)]"
    by code_simp
  have a: "has_artifact (ex_env_down ''tokA'') (ex_item 1 2 102 0)"
    by code_simp
  from lookup_exception_ends_scanner[OF h1 h2 h3 h4, of "[(ex_env ''tokB'', 16 * second)]"] h1 h2 h3 h4 m a
  show ?thesis by (elim conjE, intro conjI) assumption+
qed

text \<open>
  The claim as stated fails: with a failing lookup for the first item, the second
  item, whose artifact is ready, is not delivered, and the tick that would have
  followed with a healthy database never runs.
\<close>

theorem lookup_exception_halts_scanner:
  "fst (trade_delivery_thread [(ex_env_down ''tokA'', second), (ex_env ''tokB'', 16 * second)]
          (ex_pending [ex_item 1 3 100 0, ex_item 1 2 101 0])) = Some OperationalError \<and>
   PENDING_DELIVERY (snd (trade_delivery_thread
          [(ex_env_down ''tokA'', second), (ex_env ''tokB'', 16 * second)]
          (ex_pending [ex_item 1 3 100 0, ex_item 1 2 101 0]))) =
     [ex_item 1 3 100 0, ex_item 1 2 101 0] \<and>
   SEND_QUEUE (snd (trade_delivery_thread
          [(ex_env_down ''tokA'', second), (ex_env ''tokB'', 16 * second)]
          (ex_pending [ex_item 1 3 100 0, ex_item 1 2 101 0]))) = [] \<and>
   UploadToken (snd (trade_delivery_thread
          [(ex_env_down ''tokA'', second), (ex_env ''tokB'', 16 * second)]
          (ex_pending [ex_item 1 3 100 0, ex_item 1 2 101 0]))) = [] \<and>
   has_artifact (ex_env_down ''tokA'') (ex_item 1 2 101 0)"
  by code_simp

subsection \<open>C4: a dispatch that fails\<close>

text \<open>
  Claim C4, as amended: \<open>drain_send_queue\<close> has a \<open>finally\<close> and no \<open>except\<close>. A job
  whose dispatch raises ends the tick: the jobs before it were dispatched, the job
  itself was popped and is not put back, and the jobs behind it stay on the queue in
  their order.
\<close>

theorem dispatch_failure_ends_drain:
  assumes "\<forall>j \<in> set pre. dispatch_send b j = None"
    and "dispatch_send b job = Some err"
  shows "drain_send_queue b (pre @ job # post) = (Some err, post, pre @ [job])"
  using assms by (induction pre) simp_all

theorem dispatch_failure_ends_drain_witness:
  "dispatch_send ex_bot_blocked (ex_job 101) = None \<and>
   dispatch_send ex_bot_blocked (ex_job 100) = Some TelegramError \<and>
   drain_send_queue ex_bot_blocked ([ex_job 101] @ ex_job 100 # [ex_job 102, ex_job 103]) =
     (Some TelegramError, [ex_job 102, ex_job 103], [ex_job 101] @ [ex_job 100])"
proof -
  have h1: "\<forall>j \<in> set [ex_job 101]. dispatch_send ex_bot_blocked j = None"
    by (simp add: dispatch_send_def ex_bot_blocked_def ex_job_def)
  have h2: "dispatch_send ex_bot_blocked (ex_job 100) = Some TelegramError"
    by (simp add: dispatch_send_def ex_bot_blocked_def ex_job_def)
  from dispatch_failure_ends_drain[OF h1 h2, of "[ex_job 102, ex_job 103]"] h1 h2
  show ?thesis by simp
qed

text \<open>
  The claim as stated fails: the job behind a failing one is not dispatched in that
  tick, although its own dispatch would succeed.
\<close>

theorem failed_dispatch_leaves_backlog:
  "drain_send_queue ex_bot_blocked [ex_job 100, ex_job 101] =
     (Some TelegramError, [ex_job 101], [ex_job 100]) \<and>
   dispatch_send ex_bot_blocked (ex_job 101) = None"
  by (simp add: dispatch_send_def ex_bot_blocked_def ex_job_def)

subsection \<open>C5: stale items\<close>

text \<open>
  Claim C5, as amended: an item older than the TTL at the pass gets no send job and
  no token, whether or not its option has an artifact (nothing is assumed of the
  lookups), and a pass that runs to its end removes it. In a state with one entry
  per key: no token minted by the pass has the item's key, every job the pass
  enqueues links to a token it minted, and when no exception leaves the pass the
  item's key is no longer pending.
\<close>

theorem stale_item_dropped:
  assumes "distinct (map item_key (PENDING_DELIVERY s))"
    and "item \<in> set (PENDING_DELIVERY s)"
    and "now - added_at item > TTL"
  shows "(fst (scan_tick e now s) = None \<longrightarrow>
            item_key item \<notin> set (map item_key (PENDING_DELIVERY (snd (scan_tick e now s))))) \<and>
         (\<exists>jobs rows.
            SEND_QUEUE (snd (scan_tick e now s)) = SEND_QUEUE s @ jobs \<and>
            UploadToken (snd (scan_tick e now s)) = UploadToken s @ rows \<and>
            (\<forall>j \<in> set jobs. \<exists>row \<in> set rows. job_linked e j row) \<and>
            (\<forall>row \<in> set rows. token_key row \<noteq> item_key item))"
proof -
  have stale: "stale now item" using assms(3) by (simp add: stale_def)
  obtain r s' where st: "scan_tick e now s = (r, s')" by (cases "scan_tick e now s")
  from scan_tick_char[OF st] obtain n jobs rows where
    tk: "UploadToken s' = UploadToken s @ rows" and
    jl: "list_all2 (job_linked e) jobs rows" and
    mf: "list_all2 (minted_for now) rows (filter (deliverable e now) (take n (PENDING_DELIVERY s)))" and
    ok: "r = None \<longrightarrow>
         PENDING_DELIVERY s' = filter (\<lambda>i. \<not> removable e now i) (PENDING_DELIVERY s) \<and>
         SEND_QUEUE s' = SEND_QUEUE s @ jobs" and
    bad: "r \<noteq> None \<longrightarrow> PENDING_DELIVERY s' = PENDING_DELIVERY s \<and> SEND_QUEUE s' = SEND_QUEUE s"
    by blast
  have keys: "map token_key rows = map item_key (filter (deliverable e now) (take n (PENDING_DELIVERY s)))"
    using mf by (rule minted_keys)
  have no_row: "\<forall>row \<in> set rows. token_key row \<noteq> item_key item"
  proof
    fix row assume "row \<in> set rows"
    then have "token_key row \<in> set (map token_key rows)" by simp
    then obtain a where a: "a \<in> set (PENDING_DELIVERY s)" "deliverable e now a"
      and ka: "token_key row = item_key a"
      unfolding keys by (auto dest: in_set_takeD)
    show "token_key row \<noteq> item_key item"
    proof
      assume "token_key row = item_key item"
      with ka have "item_key a = item_key item" by simp
      from distinct_key_eq[OF assms(1) a(1) assms(2) this] a(2) stale
      show False by (simp add: deliverable_def)
    qed
  qed
  have gone: "r = None \<longrightarrow> item_key item \<notin> set (map item_key (PENDING_DELIVERY s'))"
  proof
    assume r: "r = None"
    show "item_key item \<notin> set (map item_key (PENDING_DELIVERY s'))"
    proof
      assume "item_key item \<in> set (map item_key (PENDING_DELIVERY s'))"
      with ok r obtain b where b: "b \<in> set (PENDING_DELIVERY s)" "\<not> removable e now b"
        and kb: "item_key item = item_key b"
        by auto
      from distinct_key_eq[OF assms(1) assms(2) b(1) kb] b(2) stale
      show False by (simp add: removable_def)
    qed
  qed
  show ?thesis
  proof (cases r)
    case None
    then show ?thesis
      using st tk ok gone no_row list_all2_ex_right[OF jl]
      by (intro conjI exI[of _ jobs] exI[of _ rows]) simp_all
  next
    case (Some err)
    then show ?thesis
      using st tk bad no_row
      by (intro conjI exI[of _ "[]"] exI[of _ rows]) simp_all
  qed
qed

theorem stale_item_dropped_witness:
  "distinct (map item_key
      (PENDING_DELIVERY (ex_pending [ex_item 1 2 100 0, ex_item 1 2 101 second]))) \<and>
   ex_item 1 2 100 0 \<in> set (PENDING_DELIVERY (ex_pending [ex_item 1 2 100 0, ex_item 1 2 101 second])) \<and>
   ex_late - added_at (ex_item 1 2 100 0) > TTL \<and>
   has_artifact (ex_env ''tokA'') (ex_item 1 2 100 0) \<and>
   fst (scan_tick (ex_env ''tokA'') ex_late
          (ex_pending [ex_item 1 2 100 0, ex_item 1 2 101 second])) = None \<and>
   item_key (ex_item 1 2 100 0) \<notin>
     set (map item_key (PENDING_DELIVERY (snd (scan_tick (ex_env ''tokA'') ex_late
          (ex_pending [ex_item 1 2 100 0, ex_item 1 2 101 second]))))) \<and>
   (\<exists>jobs rows.
      SEND_QUEUE (snd (scan_tick (ex_env ''tokA'') ex_late
          (ex_pending [ex_item 1 2 100 0, ex_item 1 2 101 second]))) =
        SEND_QUEUE (ex_pending [ex_item 1 2 100 0, ex_item 1 2 101 second]) @ jobs \<and>
      UploadToken (snd (scan_tick (ex_env ''tokA'') ex_late
          (ex_pending [ex_item 1 2 100 0, ex_item 1 2 101 second]))) =
        UploadToken (ex_pending [ex_item 1 2 100 0, ex_item 1 2 101 second]) @ rows \<and>
      (\<forall>j \<in> set jobs. \<exists>row \<in> set rows. job_linked (ex_env ''tokA'') j row) \<and>
      (\<forall>row \<in> set rows. token_key row \<noteq> item_key (ex_item 1 2 100 0)))"
proof -
  let ?s = "ex_pending [ex_item 1 2 100 0, ex_item 1 2 101 second]"
  have h1: "distinct (map item_key (PENDING_DELIVERY ?s))" by code_simp
  have h2: "ex_item 1 2 100 0 \<in> set (PENDING_DELIVERY ?s)"
    by (simp add: ex_pending_def)
  have h3: "ex_late - added_at (ex_item 1 2 100 0) > TTL"
    by (simp add: ex_late_def ex_item_def second_def)
  have a: "has_artifact (ex_env ''tokA'') (ex_item 1 2 100 0)" by code_simp
  have ok: "fst (scan_tick (ex_env ''tokA'') ex_late ?s) = None" by code_simp
  from stale_item_dropped[OF h1 h2 h3, of "ex_env ''tokA''"] h1 h2 h3 a ok
  show ?thesis by (intro conjI) (simp_all only: simp_thms)
qed

text \<open>
  The claim as stated has the removal for every pass. The pass only notes the index
  of a stale item and pops after the loop: when the lookup for a later item raises,
  the pops are skipped and the stale item is still pending.
\<close>

theorem stale_item_kept_when_pass_raises:
  "reachable ex_stale_first \<and>
   PENDING_DELIVERY ex_stale_first = [ex_item 1 2 100 0, ex_item 1 3 101 second] \<and>
   ex_late - added_at (ex_item 1 2 100 0) > TTL \<and>
   fst (scan_tick (ex_env_down ''tokA'') ex_late ex_stale_first) = Some OperationalError \<and>
   PENDING_DELIVERY (snd (scan_tick (ex_env_down ''tokA'') ex_late ex_stale_first)) =
     [ex_item 1 2 100 0, ex_item 1 3 101 second]"
proof -
  have r: "reachable ex_stale_first"
    unfolding ex_stale_first_def by (intro reachable.intros)
  have p: "PENDING_DELIVERY ex_stale_first = [ex_item 1 2 100 0, ex_item 1 3 101 second]"
    by code_simp
  have t: "ex_late - added_at (ex_item 1 2 100 0) > TTL"
    by (simp add: ex_late_def ex_item_def second_def)
  have e: "fst (scan_tick (ex_env_down ''tokA'') ex_late ex_stale_first) = Some OperationalError"
    by code_simp
  have k: "PENDING_DELIVERY (snd (scan_tick (ex_env_down ''tokA'') ex_late ex_stale_first)) =
     [ex_item 1 2 100 0, ex_item 1 3 101 second]"
    by code_simp
  show ?thesis using r p t e k by (intro conjI)
qed

subsection \<open>C6: the expiry of a token\<close>

text \<open>
  Claim C6: a token minted by a pass at time \<open>now\<close> expires two days later, in the
  seconds of the stored timestamp; an upload that presents a token which is unknown,
  used or expired (the time is at or past \<open>expires_at\<close>) is answered 410 and changes
  nothing; so is an upload one second after the expiry.
\<close>

theorem token_expiry_two_days:
  "(\<exists>rows. UploadToken (snd (scan_tick e now s)) = UploadToken s @ rows \<and>
      (\<forall>row \<in> set rows. t_expires_at row = sql_timestamp (now + timedelta_days 2) \<and>
                         t_expires_at row = sql_timestamp now + 2 * 86400 \<and>
                         t_used_at row = None)) \<and>
   ((\<forall>t \<in> set (UploadToken st). token t = tok \<longrightarrow>
        t_used_at t \<noteq> None \<or> t_expires_at t * 1000000 \<le> now') \<longrightarrow>
      ui_upload_submit w now' tok fl st = (410, st)) \<and>
   ((\<forall>t \<in> set (UploadToken st). token t = tok \<longrightarrow> t_expires_at t = x) \<longrightarrow>
      ui_upload_submit w ((x + 1) * 1000000) tok fl st = (410, st))"
proof -
  obtain r s' where st: "scan_tick e now s = (r, s')" by (cases "scan_tick e now s")
  from scan_tick_char[OF st] obtain n rows where
    tk: "UploadToken s' = UploadToken s @ rows" and
    mf: "list_all2 (minted_for now) rows (filter (deliverable e now) (take n (PENDING_DELIVERY s)))"
    by blast
  have "\<forall>row \<in> set rows. \<exists>i \<in> set (filter (deliverable e now) (take n (PENDING_DELIVERY s))).
          minted_for now row i"
    using mf by (rule list_all2_ex_right)
  then have exp: "\<forall>row \<in> set rows. t_expires_at row = sql_timestamp (now + timedelta_days 2) \<and>
                         t_expires_at row = sql_timestamp now + 2 * 86400 \<and>
                         t_used_at row = None"
    by (auto simp: minted_for_def sql_timestamp_two_days)
  have a: "\<exists>rows. UploadToken (snd (scan_tick e now s)) = UploadToken s @ rows \<and>
      (\<forall>row \<in> set rows. t_expires_at row = sql_timestamp (now + timedelta_days 2) \<and>
                         t_expires_at row = sql_timestamp now + 2 * 86400 \<and>
                         t_used_at row = None)"
    using st tk exp by auto
  have c: "(\<forall>t \<in> set (UploadToken st). token t = tok \<longrightarrow> t_expires_at t = x) \<longrightarrow>
      ui_upload_submit w ((x + 1) * 1000000) tok fl st = (410, st)"
    by (auto intro!: invalid_token_410)
  show ?thesis using a c invalid_token_410[of st tok now' w fl] by blast
qed

theorem token_expiry_two_days_witness:
  "t_used_at ex_token_row = None \<and>
   t_expires_at ex_token_row * 1000000 \<le> 172800 * second \<and>
   ui_upload_submit ex_web (172800 * second) ''tokA'' (Some ex_file_a) ex_token_state =
     (410, ex_token_state) \<and>
   t_expires_at ex_token_row = 172800 \<and>
   ui_upload_submit ex_web ((172800 + 1) * 1000000) ''tokA'' (Some ex_file_a) ex_token_state =
     (410, ex_token_state) \<and>
   map t_expires_at (UploadToken (snd (scan_tick (ex_env ''tokA'') second ex_confirmed))) =
     [sql_timestamp second + 2 * 86400]"
proof -
  have u: "t_used_at ex_token_row = None" by (simp add: ex_token_row_def)
  have e: "t_expires_at ex_token_row * 1000000 \<le> 172800 * second"
    by (simp add: ex_token_row_def second_def)
  have x: "t_expires_at ex_token_row = 172800" by (simp add: ex_token_row_def)
  have h1: "\<forall>t \<in> set (UploadToken ex_token_state). token t = ''tokA'' \<longrightarrow>
              t_used_at t \<noteq> None \<or> t_expires_at t * 1000000 \<le> 172800 * second"
    using e by (simp add: ex_token_state_def init_state_def)
  have h2: "\<forall>t \<in> set (UploadToken ex_token_state). token t = ''tokA'' \<longrightarrow> t_expires_at t = 172800"
    using x by (simp add: ex_token_state_def init_state_def)
  have m: "map t_expires_at (UploadToken (snd (scan_tick (ex_env ''tokA'') second ex_confirmed))) =
     [sql_timestamp second + 2 * 86400]"
    by code_simp
  note t = token_expiry_two_days[where e = "ex_env ''tokA''" and now = second and s = ex_confirmed
      and st = ex_token_state and tok = "''tokA''" and now' = "172800 * second" and w = ex_web
      and fl = "Some ex_file_a" and x = 172800]
  from t h1 have a: "ui_upload_submit ex_web (172800 * second) ''tokA'' (Some ex_file_a) ex_token_state =
     (410, ex_token_state)" by blast
  from t h2 have b: "ui_upload_submit ex_web ((172800 + 1) * 1000000) ''tokA'' (Some ex_file_a) ex_token_state =
     (410, ex_token_state)" by blast
  show ?thesis using u e x a b m by (intro conjI)
qed

subsection \<open>C7: a drain tick\<close>

text \<open>
  Claim C7, as amended: a drain tick of either queue pops from the front and
  dispatches job by job, in the order of the queue, up to and including the first
  job whose dispatch raises; the jobs behind that one stay queued, in their order.
  What it popped, followed by what it left, is the backlog it found; when no
  dispatch raises the queue is left empty and the whole backlog was dispatched; on
  an empty queue the tick returns at once.
\<close>

theorem drain_consumes_backlog_fifo:
  "drain_send_queue b q =
     (case dropWhile (\<lambda>j. dispatch_send b j = None) q of
        [] \<Rightarrow> (None, [], q)
      | j # rest \<Rightarrow> (dispatch_send b j, rest, takeWhile (\<lambda>j. dispatch_send b j = None) q @ [j])) \<and>
   snd (snd (drain_send_queue b q)) @ fst (snd (drain_send_queue b q)) = q \<and>
   (fst (drain_send_queue b q) = None \<longrightarrow>
      fst (snd (drain_send_queue b q)) = [] \<and> snd (snd (drain_send_queue b q)) = q) \<and>
   ((\<forall>j \<in> set q. dispatch_send b j = None) \<longrightarrow> drain_send_queue b q = (None, [], q)) \<and>
   drain_send_queue b [] = (None, [], []) \<and>
   drain_poll_queue b pq =
     (case dropWhile (\<lambda>p. post_poll_to_group b p = None) pq of
        [] \<Rightarrow> (None, [], pq)
      | p # rest \<Rightarrow> (post_poll_to_group b p, rest,
                     takeWhile (\<lambda>p. post_poll_to_group b p = None) pq @ [p])) \<and>
   snd (snd (drain_poll_queue b pq)) @ fst (snd (drain_poll_queue b pq)) = pq \<and>
   (fst (drain_poll_queue b pq) = None \<longrightarrow>
      fst (snd (drain_poll_queue b pq)) = [] \<and> snd (snd (drain_poll_queue b pq)) = pq) \<and>
   ((\<forall>p \<in> set pq. post_poll_to_group b p = None) \<longrightarrow> drain_poll_queue b pq = (None, [], pq)) \<and>
   drain_poll_queue b [] = (None, [], [])"
proof -
  obtain r rest popped where s: "drain_send_queue b q = (r, rest, popped)"
    by (cases "drain_send_queue b q") auto
  obtain r' rest' popped' where p: "drain_poll_queue b pq = (r', rest', popped')"
    by (cases "drain_poll_queue b pq") auto
  have rest: "snd (snd (drain_send_queue b q)) @ fst (snd (drain_send_queue b q)) = q \<and>
   (fst (drain_send_queue b q) = None \<longrightarrow>
      fst (snd (drain_send_queue b q)) = [] \<and> snd (snd (drain_send_queue b q)) = q) \<and>
   ((\<forall>j \<in> set q. dispatch_send b j = None) \<longrightarrow> drain_send_queue b q = (None, [], q)) \<and>
   drain_send_queue b [] = (None, [], [])"
    using drain_send_queue_fifo[OF s] s drain_send_queue_all_ok[of q b] by auto
  have rest': "snd (snd (drain_poll_queue b pq)) @ fst (snd (drain_poll_queue b pq)) = pq \<and>
   (fst (drain_poll_queue b pq) = None \<longrightarrow>
      fst (snd (drain_poll_queue b pq)) = [] \<and> snd (snd (drain_poll_queue b pq)) = pq) \<and>
   ((\<forall>p \<in> set pq. post_poll_to_group b p = None) \<longrightarrow> drain_poll_queue b pq = (None, [], pq)) \<and>
   drain_poll_queue b [] = (None, [], [])"
    using drain_poll_queue_fifo[OF p] p drain_poll_queue_all_ok[of pq b] by auto
  show ?thesis
    using drain_send_queue_closed_form[of b q] drain_poll_queue_closed_form[of b pq] rest rest'
    by (elim conjE, intro conjI) assumption+
qed

theorem drain_consumes_backlog_fifo_witness:
  "dispatch_send ex_bot_ok (ex_job 100) = None \<and>
   dispatch_send ex_bot_ok (ex_job 101) = None \<and>
   drain_send_queue ex_bot_ok [ex_job 100, ex_job 101] = (None, [], [ex_job 100, ex_job 101]) \<and>
   post_poll_to_group ex_bot_ok 6 = None \<and>
   post_poll_to_group ex_bot_ok 7 = None \<and>
   drain_poll_queue ex_bot_ok [6, 7] = (None, [], [6, 7])"
proof -
  have d: "dispatch_send ex_bot_ok (ex_job 100) = None" "dispatch_send ex_bot_ok (ex_job 101) = None"
    by (simp_all add: dispatch_send_def ex_bot_ok_def ex_job_def)
  have p: "post_poll_to_group ex_bot_ok 6 = None" "post_poll_to_group ex_bot_ok 7 = None"
    by (simp_all add: ex_bot_ok_def)
  have dq: "\<forall>j \<in> set [ex_job 100, ex_job 101]. dispatch_send ex_bot_ok j = None"
    using d by simp
  have pq: "\<forall>p \<in> set [6, 7]. post_poll_to_group ex_bot_ok p = None"
    using p by simp
  note t = drain_consumes_backlog_fifo[of ex_bot_ok "[ex_job 100, ex_job 101]" "[6, 7]"]
  from t dq have a: "drain_send_queue ex_bot_ok [ex_job 100, ex_job 101] = (None, [], [ex_job 100, ex_job 101])"
    by (elim conjE) (erule mp, assumption)
  from t pq have b: "drain_poll_queue ex_bot_ok [6, 7] = (None, [], [6, 7])"
    by (elim conjE) (erule mp, assumption)
  show ?thesis using d p a b by (intro conjI)
qed

text \<open>
  The claim as stated has the whole backlog consumed on every tick. A poll that
  cannot be posted ends the tick of the announce queue with the polls behind it
  still queued.
\<close>

theorem failed_post_leaves_polls_queued:
  "drain_poll_queue ex_bot_blocked [7, 8, 9] = (Some ValueError, [8, 9], [7]) \<and>
   post_poll_to_group ex_bot_blocked 8 = None \<and>
   post_poll_to_group ex_bot_blocked 9 = None"
  by (simp add: ex_bot_blocked_def)

subsection \<open>C8: the upload link\<close>

text \<open>
  Claim C8, as amended: the link in the send job of a minted token is the base URL,
  then \<open>/ui/upload/\<close>, then the token.
\<close>

theorem upload_link_form:
  assumes "fst (scan_tick e now s) = None"
  shows "\<exists>jobs rows.
           SEND_QUEUE (snd (scan_tick e now s)) = SEND_QUEUE s @ jobs \<and>
           UploadToken (snd (scan_tick e now s)) = UploadToken s @ rows \<and>
           list_all2 (\<lambda>j row. snd (snd (snd j)) = Some (PUBLIC_BASE_URL e @ ''/ui/upload/'' @ token row))
             jobs rows"
proof -
  obtain r s' where st: "scan_tick e now s = (r, s')" by (cases "scan_tick e now s")
  with assms have r: "r = None" by simp
  from scan_tick_char[OF st] r obtain jobs rows where
    tk: "UploadToken s' = UploadToken s @ rows" and
    jl: "list_all2 (job_linked e) jobs rows" and
    sq: "SEND_QUEUE s' = SEND_QUEUE s @ jobs"
    by blast
  have "list_all2 (\<lambda>j row. snd (snd (snd j)) = Some (PUBLIC_BASE_URL e @ ''/ui/upload/'' @ token row))
             jobs rows"
    using jl by (rule list_all2_mono) (simp add: job_linked_def)
  then show ?thesis using st tk sq by auto
qed

theorem upload_link_form_witness:
  "fst (scan_tick (ex_env ''tokA'') second ex_confirmed) = None \<and>
   (\<exists>jobs rows.
      SEND_QUEUE (snd (scan_tick (ex_env ''tokA'') second ex_confirmed)) =
        SEND_QUEUE ex_confirmed @ jobs \<and>
      UploadToken (snd (scan_tick (ex_env ''tokA'') second ex_confirmed)) =
        UploadToken ex_confirmed @ rows \<and>
      list_all2 (\<lambda>j row. snd (snd (snd j)) =
                   Some (PUBLIC_BASE_URL (ex_env ''tokA'') @ ''/ui/upload/'' @ token row))
        jobs rows)"
proof -
  have h: "fst (scan_tick (ex_env ''tokA'') second ex_confirmed) = None" by code_simp
  show ?thesis by (rule conjI[OF h upload_link_form[OF h]])
qed

text \<open>
  The claim as stated has \<open>/upload/\<close> after the base URL; the route of the upload
  page, and the link the scanner builds, have \<open>/ui/upload/\<close>.
\<close>

theorem upload_link_has_ui_prefix:
  "map (snd \<circ> snd \<circ> snd) (SEND_QUEUE (snd (scan_tick (ex_env ''tokA'') second ex_confirmed))) =
     [Some ''http://127.0.0.1:5000/ui/upload/tokA''] \<and>
   map token (UploadToken (snd (scan_tick (ex_env ''tokA'') second ex_confirmed))) = [''tokA''] \<and>
   PUBLIC_BASE_URL (ex_env ''tokA'') @ ''/upload/'' @ ''tokA'' = ''http://127.0.0.1:5000/upload/tokA'' \<and>
   ''http://127.0.0.1:5000/ui/upload/tokA'' \<noteq> ''http://127.0.0.1:5000/upload/tokA''"
  by code_simp

subsection \<open>C9: one execution row per selection\<close>

text \<open>
  Claim C9: in every reachable state table \<open>OptionExecution\<close> has at most one row
  for a selection; a successful upload for a selection that has a row leaves the
  keys of the table as they are and overwrites the screenshot URL and the creation
  time of that row; the rows of other selections are untouched.
\<close>

theorem option_execution_one_row_per_selection:
  assumes "reachable s"
  shows "distinct (map exec_key (OptionExecution s)) \<and>
         (upload_resolve now tok (Some f) s = Inr (row, f) \<longrightarrow>
            fst (ui_upload_submit w now tok (Some f) s) = 200 \<and>
            distinct (map exec_key (OptionExecution (snd (ui_upload_submit w now tok (Some f) s)))) \<and>
            (token_key row \<in> set (map exec_key (OptionExecution s)) \<longrightarrow>
               map exec_key (OptionExecution (snd (ui_upload_submit w now tok (Some f) s))) =
               map exec_key (OptionExecution s)) \<and>
            token_key row \<in> set (map exec_key (OptionExecution (snd (ui_upload_submit w now tok (Some f) s)))) \<and>
            (\<forall>r \<in> set (OptionExecution (snd (ui_upload_submit w now tok (Some f) s))).
               exec_key r = token_key row \<longrightarrow>
               e_screenshot_url r = ''uploads/'' @ saved_name w now row f \<and>
               e_created_at r = sql_timestamp now) \<and>
            filter (\<lambda>r. exec_key r \<noteq> token_key row)
                (OptionExecution (snd (ui_upload_submit w now tok (Some f) s))) =
              filter (\<lambda>r. exec_key r \<noteq> token_key row) (OptionExecution s))"
proof -
  have d: "distinct (map exec_key (OptionExecution s))"
    using assms by (rule reachable_exec_distinct)
  show ?thesis
  proof (cases "upload_resolve now tok (Some f) s = Inr (row, f)")
    case res: True
    have sub: "ui_upload_submit w now tok (Some f) s = upload_store w now tok row f s"
      using res by (simp add: ui_upload_submit_def)
    have 4: "\<forall>r \<in> set (OptionExecution (snd (upload_store w now tok row f s))).
               exec_key r = token_key row \<longrightarrow>
               e_screenshot_url r = ''uploads/'' @ saved_name w now row f \<and>
               e_created_at r = sql_timestamp now"
      unfolding upload_store_exec by (intro ballI impI) (rule upsert_row_values)
    have 1: "fst (upload_store w now tok row f s) = 200"
      by (rule upload_store_code)
    have 2: "distinct (map exec_key (OptionExecution (snd (upload_store w now tok row f s))))"
      using d by (rule upload_store_exec_distinct)
    have 3: "token_key row \<in> set (map exec_key (OptionExecution s)) \<longrightarrow>
               map exec_key (OptionExecution (snd (upload_store w now tok row f s))) =
               map exec_key (OptionExecution s)"
      by (simp add: upload_store_exec upsert_keys)
    have 5: "token_key row \<in> set (map exec_key (OptionExecution (snd (upload_store w now tok row f s))))"
      unfolding upload_store_exec upsert_keys by (cases "token_key row \<in> set (map exec_key (OptionExecution s))") simp_all
    have 6: "filter (\<lambda>r. exec_key r \<noteq> token_key row)
                (OptionExecution (snd (upload_store w now tok row f s))) =
              filter (\<lambda>r. exec_key r \<noteq> token_key row) (OptionExecution s)"
      unfolding upload_store_exec by (rule upsert_others_kept)
    show ?thesis
      unfolding sub by (intro conjI impI d 1 2 5 6 4 3[rule_format])
  next
    case False
    with d show ?thesis by (simp only: simp_thms)
  qed
qed

theorem option_execution_one_row_per_selection_witness:
  "reachable ex_uploaded \<and>
   upload_resolve (30 * second) ''tokB'' (Some ex_file_b) ex_uploaded = Inr (ex_token_row_b, ex_file_b) \<and>
   token_key ex_token_row_b \<in> set (map exec_key (OptionExecution ex_uploaded)) \<and>
   distinct (map exec_key (OptionExecution ex_uploaded)) \<and>
   fst (ui_upload_submit ex_web (30 * second) ''tokB'' (Some ex_file_b) ex_uploaded) = 200 \<and>
   map exec_key (OptionExecution (snd (ui_upload_submit ex_web (30 * second) ''tokB'' (Some ex_file_b) ex_uploaded))) =
     map exec_key (OptionExecution ex_uploaded) \<and>
   map exec_key (OptionExecution ex_uploaded) = [(1, 2, 100)] \<and>
   map e_screenshot_url (OptionExecution ex_uploaded) =
     [''uploads/exec_p1_o2_u100_19700101T000001Z__a.png''] \<and>
   map e_screenshot_url
     (OptionExecution (snd (ui_upload_submit ex_web (30 * second) ''tokB'' (Some ex_file_b) ex_uploaded))) =
     [''uploads/exec_p1_o2_u100_19700101T000001Z__b.png'']"
proof -
  have h: "reachable ex_uploaded"
    unfolding ex_uploaded_def ex_twice_def by (intro reachable.intros)
  have r: "upload_resolve (30 * second) ''tokB'' (Some ex_file_b) ex_uploaded = Inr (ex_token_row_b, ex_file_b)"
    by code_simp
  have k: "token_key ex_token_row_b \<in> set (map exec_key (OptionExecution ex_uploaded))"
    by code_simp
  have v: "map exec_key (OptionExecution ex_uploaded) = [(1, 2, 100)]"
    "map e_screenshot_url (OptionExecution ex_uploaded) =
       [''uploads/exec_p1_o2_u100_19700101T000001Z__a.png'']"
    "map e_screenshot_url
     (OptionExecution (snd (ui_upload_submit ex_web (30 * second) ''tokB'' (Some ex_file_b) ex_uploaded))) =
     [''uploads/exec_p1_o2_u100_19700101T000001Z__b.png'']"
    by code_simp+
  note t = option_execution_one_row_per_selection[OF h, where now = "30 * second"
      and tok = "''tokB''" and f = ex_file_b and row = ex_token_row_b and w = ex_web]
  from t r k have
    "distinct (map exec_key (OptionExecution ex_uploaded))"
    "fst (ui_upload_submit ex_web (30 * second) ''tokB'' (Some ex_file_b) ex_uploaded) = 200"
    "map exec_key (OptionExecution (snd (ui_upload_submit ex_web (30 * second) ''tokB'' (Some ex_file_b) ex_uploaded))) =
     map exec_key (OptionExecution ex_uploaded)"
    by blast+
  then show ?thesis using h r k v by (intro conjI)
qed

subsection \<open>C10: an upload without a file\<close>

text \<open>
  Claim C10: with a valid token and no file (no part named \<open>file\<close>, or one with an
  empty filename) the answer is 400 and the state is unchanged: the token is still
  valid and no execution row is written.
\<close>

theorem upload_without_file_rejected:
  assumes "select_valid_token tok now (UploadToken s) = Some row"
    and "fl = None \<or> (\<exists>f. fl = Some f \<and> filename f = [])"
  shows "ui_upload_submit w now tok fl s = (400, s) \<and>
         select_valid_token tok now (UploadToken (snd (ui_upload_submit w now tok fl s))) = Some row \<and>
         OptionExecution (snd (ui_upload_submit w now tok fl s)) = OptionExecution s"
  using assms by (auto simp: ui_upload_submit_def upload_resolve_def)

theorem upload_without_file_rejected_witness:
  "select_valid_token ''tokA'' second (UploadToken ex_token_state) = Some ex_token_row \<and>
   ui_upload_submit ex_web second ''tokA'' None ex_token_state = (400, ex_token_state) \<and>
   select_valid_token ''tokA'' second
     (UploadToken (snd (ui_upload_submit ex_web second ''tokA'' None ex_token_state))) = Some ex_token_row \<and>
   OptionExecution (snd (ui_upload_submit ex_web second ''tokA'' None ex_token_state)) =
     OptionExecution ex_token_state"
proof -
  have h: "select_valid_token ''tokA'' second (UploadToken ex_token_state) = Some ex_token_row"
    by code_simp
  have f: "(None :: file_storage option) = None \<or> (\<exists>f. None = Some f \<and> filename f = [])" by simp
  show ?thesis by (rule conjI[OF h upload_without_file_rejected[OF h f, of ex_web]])
qed

end
